theory Spec2Isabelle
  imports Complex_Main
begin

section \<open>Data model (types.ts)\<close>

text \<open>
  Seconds, frame rates and durations are JavaScript numbers. In the boundary tables and
  the frame mapping they are modelled as exact rationals (a JSON artifact carries neither
  NaN nor an infinity), frame counts and indices as integers; the two conversions between
  seconds and frames are modelled in IEEE 754 double arithmetic as well. A lookup that
  yields \<open>undefined\<close> in JavaScript is \<open>None\<close>.

  Of \<open>Track\<close> and \<open>Chapter\<close> only the fields that the timing code reads are kept
  (the audio file of a track; the id, the video and the tracks of a chapter); the
  remaining fields are display text.
\<close>

record Track =
  audioFile :: string

record Chapter =
  chapterId :: int
  video :: string
  tracks :: "Track list"

text \<open>The two precomputed artifacts, \<open>audioDurations.json\<close> and \<open>videoDurations.json\<close>.\<close>

record AudioDurationsData =
  trackDurations :: "(string \<rightharpoonup> rat) option"
  chapterDurations :: "rat list"
  totalDuration :: rat
  calculatedAt :: string

record VideoDurationsData =
  videoDurationsTable :: "(string \<rightharpoonup> rat) option"
  videoCalculatedAt :: string

text \<open>
  The module-level constants that the functions read: the chapter sequence and the two
  artifacts. Each artifact may be missing as a whole (the code tests
  \<open>audioDurations &&\<close>, \<open>videoDurations &&\<close>). The table of an artifact may be
  missing too: the code tests \<open>audioDurations.trackDurations\<close> for presence, and reads
  \<open>videoDurations.videoDurations\<close> without a test.
\<close>

record Env =
  CHAPTERS :: "Chapter list"
  audioDurations :: "AudioDurationsData option"
  videoDurations :: "VideoDurationsData option"

section \<open>JavaScript primitives\<close>

text \<open>\<open>v || fallback\<close> and \<open>if (v)\<close> on a number or undefined: \<open>undefined\<close> and 0 are falsy.\<close>

definition truthy :: "rat option \<Rightarrow> rat option" where
  "truthy v = (case v of None \<Rightarrow> None | Some x \<Rightarrow> if x = 0 then None else Some x)"

text \<open>Reading a property of \<open>undefined\<close> throws.\<close>

datatype js_error = TypeError

text \<open>
  A duration table is a plain object. \<open>table[key]\<close> yields the table's own entry for
  the key; else the member of that name that every object inherits from
  \<open>Object.prototype\<close> (a function, and for \<open>__proto__\<close> the prototype object: truthy
  values that are not numbers); else \<open>undefined\<close>.
\<close>

datatype js_value = NumberValue rat | InheritedMember string

definition Object_prototype_members :: "string list" where
  "Object_prototype_members =
     [''constructor'', ''hasOwnProperty'', ''isPrototypeOf'', ''propertyIsEnumerable'',
      ''toLocaleString'', ''toString'', ''valueOf'', ''__proto__'', ''__defineGetter__'',
      ''__defineSetter__'', ''__lookupGetter__'', ''__lookupSetter__'']"

definition js_get :: "(string \<rightharpoonup> rat) \<Rightarrow> string \<Rightarrow> js_value option" where
  "js_get table key =
     (case table key of
        Some v \<Rightarrow> Some (NumberValue v)
      | None \<Rightarrow>
         if key \<in> set Object_prototype_members then Some (InheritedMember key) else None)"

text \<open>\<open>if (v)\<close> on the result of a property read: \<open>undefined\<close> and 0 are falsy.\<close>

definition js_truthy :: "js_value option \<Rightarrow> js_value option" where
  "js_truthy v =
     (case v of
        None \<Rightarrow> None
      | Some (NumberValue x) \<Rightarrow> if x = 0 then None else Some (NumberValue x)
      | Some (InheritedMember m) \<Rightarrow> Some (InheritedMember m))"

text \<open>\<open>xs[i]\<close> on an array: \<open>undefined\<close> outside the array.\<close>

definition js_index :: "'a list \<Rightarrow> int \<Rightarrow> 'a option" where
  "js_index xs i = (if 0 \<le> i \<and> i < int (length xs) then Some (xs ! nat i) else None)"

definition startsWith :: "string \<Rightarrow> string \<Rightarrow> bool" where
  "startsWith s p = (take (length p) s = p)"

text \<open>\<open>s.replace(pat, rep)\<close> with a string pattern: the first occurrence only.\<close>

fun replace_first :: "string \<Rightarrow> string \<Rightarrow> string \<Rightarrow> string" where
  "replace_first pat rep [] = (if pat = [] then rep else [])"
| "replace_first pat rep (c # cs) =
     (if take (length pat) (c # cs) = pat then rep @ drop (length pat) (c # cs)
      else c # replace_first pat rep cs)"

text \<open>\<open>Math.round\<close>: to the nearest integer, halves towards plus infinity.\<close>

definition Math_round :: "rat \<Rightarrow> int" where
  "Math_round x = \<lfloor>x + 1 / 2\<rfloor>"

subsection \<open>Numbers as IEEE 754 doubles\<close>

text \<open>
  A JavaScript number: a finite value (\<open>Finite 0\<close> is the positive zero), the negative
  zero, an infinity or NaN. A finite value is a double when rounding leaves it unchanged.
\<close>

datatype js_number = Finite rat | NegZero | PosInfinity | NegInfinity | NaN

text \<open>
  The binary exponent \<open>e\<close> of a magnitude \<open>a\<close>, with \<open>2 powi e \<le> a < 2 powi (e + 1)\<close>,
  kept between -1022 (below it the doubles are subnormal and equally spaced) and 1024
  (from there on the magnitude overflows). The search starts at exponent 0.
\<close>

function exponent_up :: "rat \<Rightarrow> int \<Rightarrow> int" where
  "exponent_up a e = (if e < 1024 \<and> 2 powi (e + 1) \<le> a then exponent_up a (e + 1) else e)"
  by pat_completeness auto
termination
  by (relation "measure (\<lambda>(a, e). nat (1024 - e))") auto

declare exponent_up.simps [simp del]

function exponent_down :: "rat \<Rightarrow> int \<Rightarrow> int" where
  "exponent_down a e = (if - 1022 < e \<and> a < 2 powi e then exponent_down a (e - 1) else e)"
  by pat_completeness auto
termination
  by (relation "measure (\<lambda>(a, e). nat (e + 1022))") auto

declare exponent_down.simps [simp del]

definition exponent_of :: "rat \<Rightarrow> int" where
  "exponent_of a = (if 1 \<le> a then exponent_up a 0 else exponent_down a 0)"

text \<open>To the nearest integer, a tie to the even one.\<close>

definition round_half_even :: "rat \<Rightarrow> int" where
  "round_half_even y =
     (if y - of_int \<lfloor>y\<rfloor> < 1 / 2 then \<lfloor>y\<rfloor>
      else if 1 / 2 < y - of_int \<lfloor>y\<rfloor> then \<lfloor>y\<rfloor> + 1
      else if even \<lfloor>y\<rfloor> then \<lfloor>y\<rfloor> else \<lfloor>y\<rfloor> + 1)"

definition signed_zero :: "bool \<Rightarrow> js_number" where
  "signed_zero negative = (if negative then NegZero else Finite 0)"

definition signed_infinity :: "bool \<Rightarrow> js_number" where
  "signed_infinity negative = (if negative then NegInfinity else PosInfinity)"

text \<open>
  The double nearest to an exact result \<open>x\<close> (round to nearest, ties to even): a
  multiple of the spacing \<open>2 powi (e - 52)\<close> of the doubles around \<open>x\<close>; an infinity
  when the rounded magnitude reaches \<open>2 powi 1024\<close>; a zero with the sign of \<open>x\<close> on
  underflow.
\<close>

definition round_to_double :: "rat \<Rightarrow> js_number" where
  "round_to_double x =
     (let ulp = 2 powi (exponent_of \<bar>x\<bar> - 52);
          y = of_int (round_half_even (x / ulp)) * ulp
      in if 2 powi 1024 \<le> \<bar>y\<bar> then signed_infinity (x < 0)
         else if y = 0 then signed_zero (x < 0)
         else Finite y)"

definition is_double :: "js_number \<Rightarrow> bool" where
  "is_double v = (case v of Finite x \<Rightarrow> round_to_double x = Finite x | _ \<Rightarrow> True)"

fun is_negative :: "js_number \<Rightarrow> bool" where
  "is_negative (Finite x) = (x < 0)"
| "is_negative NegZero = True"
| "is_negative NegInfinity = True"
| "is_negative PosInfinity = False"
| "is_negative NaN = False"

fun is_zero :: "js_number \<Rightarrow> bool" where
  "is_zero (Finite x) = (x = 0)"
| "is_zero NegZero = True"
| "is_zero _ = False"

fun is_infinite :: "js_number \<Rightarrow> bool" where
  "is_infinite PosInfinity = True"
| "is_infinite NegInfinity = True"
| "is_infinite _ = False"

fun rat_of :: "js_number \<Rightarrow> rat" where
  "rat_of (Finite x) = x"
| "rat_of _ = 0"

text \<open>\<open>a * b\<close> and \<open>a / b\<close> on numbers.\<close>

definition js_mul :: "js_number \<Rightarrow> js_number \<Rightarrow> js_number" where
  "js_mul a b =
     (if a = NaN \<or> b = NaN then NaN
      else if (is_infinite a \<and> is_zero b) \<or> (is_zero a \<and> is_infinite b) then NaN
      else if is_infinite a \<or> is_infinite b
           then signed_infinity (is_negative a \<noteq> is_negative b)
      else if is_zero a \<or> is_zero b then signed_zero (is_negative a \<noteq> is_negative b)
      else round_to_double (rat_of a * rat_of b))"

definition js_div :: "js_number \<Rightarrow> js_number \<Rightarrow> js_number" where
  "js_div a b =
     (if a = NaN \<or> b = NaN then NaN
      else if (is_infinite a \<and> is_infinite b) \<or> (is_zero a \<and> is_zero b) then NaN
      else if is_infinite a \<or> is_zero b
           then signed_infinity (is_negative a \<noteq> is_negative b)
      else if is_infinite b \<or> is_zero a then signed_zero (is_negative a \<noteq> is_negative b)
      else round_to_double (rat_of a / rat_of b))"

text \<open>
  \<open>Math.round\<close> on a number: NaN, the infinities and the zeros are returned as they
  are; a value in \<open>[-0.5, 0)\<close> gives the negative zero.
\<close>

fun Math_round_js :: "js_number \<Rightarrow> js_number" where
  "Math_round_js (Finite x) =
     (if \<lfloor>x + 1 / 2\<rfloor> = 0 then signed_zero (x < 0) else Finite (of_int \<lfloor>x + 1 / 2\<rfloor>))"
| "Math_round_js v = v"

section \<open>Duration resolver and boundary tables (constants.ts)\<close>

definition FALLBACK_TRACK_DURATION_SECONDS :: rat where
  "FALLBACK_TRACK_DURATION_SECONDS = 180"

definition FALLBACK_VIDEO_DURATION_SECONDS :: rat where
  "FALLBACK_VIDEO_DURATION_SECONDS = 30"

definition getTrackDuration :: "Env \<Rightarrow> string \<Rightarrow> rat" where
  "getTrackDuration env file =
     (case audioDurations env of
        None \<Rightarrow> FALLBACK_TRACK_DURATION_SECONDS
      | Some ad \<Rightarrow>
         (case trackDurations ad of
            None \<Rightarrow> FALLBACK_TRACK_DURATION_SECONDS
          | Some td \<Rightarrow>
             (case truthy (td file) of
                Some d \<Rightarrow> d
              | None \<Rightarrow>
                 (let withAssetsPrefix =
                        (if startsWith file ''/assets/'' then file else ''/assets/'' @ file)
                  in case truthy (td withAssetsPrefix) of
                       Some d \<Rightarrow> d
                     | None \<Rightarrow>
                        (let withoutAssetsPrefix =
                               (if startsWith file ''/assets/''
                                then replace_first ''/assets/'' [] file else file)
                         in case truthy (td withoutAssetsPrefix) of
                              Some d \<Rightarrow> d
                            | None \<Rightarrow> FALLBACK_TRACK_DURATION_SECONDS)))))"

text \<open>
  \<open>getTrackDuration\<close> above is the resolver as the timeline functions use it, on the
  track references of the chapters: the number found among the table's own entries.
  \<open>getTrackDuration_js\<close> is the same function with the property read of JavaScript,
  which also finds inherited members; it returns what \<open>getTrackDuration\<close> returns
  unless a lookup reaches an inherited member.
\<close>

definition getTrackDuration_js :: "Env \<Rightarrow> string \<Rightarrow> js_value" where
  "getTrackDuration_js env file =
     (case audioDurations env of
        None \<Rightarrow> NumberValue FALLBACK_TRACK_DURATION_SECONDS
      | Some ad \<Rightarrow>
         (case trackDurations ad of
            None \<Rightarrow> NumberValue FALLBACK_TRACK_DURATION_SECONDS
          | Some td \<Rightarrow>
             (case js_truthy (js_get td file) of
                Some v \<Rightarrow> v
              | None \<Rightarrow>
                 (let withAssetsPrefix =
                        (if startsWith file ''/assets/'' then file else ''/assets/'' @ file)
                  in case js_truthy (js_get td withAssetsPrefix) of
                       Some v \<Rightarrow> v
                     | None \<Rightarrow>
                        (let withoutAssetsPrefix =
                               (if startsWith file ''/assets/''
                                then replace_first ''/assets/'' [] file else file)
                         in case js_truthy (js_get td withoutAssetsPrefix) of
                              Some v \<Rightarrow> v
                            | None \<Rightarrow> NumberValue FALLBACK_TRACK_DURATION_SECONDS)))))"

text \<open>
  \<open>getVideoDuration\<close> tests the artifact only; with an artifact that has no table, the
  property read on \<open>undefined\<close> throws.
\<close>

definition getVideoDuration :: "Env \<Rightarrow> string \<Rightarrow> js_error + js_value" where
  "getVideoDuration env videoFile =
     (case videoDurations env of
        None \<Rightarrow> Inr (NumberValue FALLBACK_VIDEO_DURATION_SECONDS)
      | Some vd \<Rightarrow>
         (case videoDurationsTable vd of
            None \<Rightarrow> Inl TypeError
          | Some table \<Rightarrow>
             (case js_truthy (js_get table videoFile) of
                Some v \<Rightarrow> Inr v
              | None \<Rightarrow> Inr (NumberValue FALLBACK_VIDEO_DURATION_SECONDS))))"

definition getChapterDuration :: "Env \<Rightarrow> int \<Rightarrow> rat" where
  "getChapterDuration env chapterIndex =
     (if chapterIndex < 0 \<or> chapterIndex \<ge> int (length (CHAPTERS env)) then 0
      else case (case audioDurations env of
                   None \<Rightarrow> None
                 | Some ad \<Rightarrow> js_index (chapterDurations ad) chapterIndex) of
             Some d \<Rightarrow> d
           | None \<Rightarrow>
              foldl (\<lambda>sum track. sum + getTrackDuration env (audioFile track)) 0
                (tracks (CHAPTERS env ! nat chapterIndex)))"

definition getTotalDuration :: "Env \<Rightarrow> rat" where
  "getTotalDuration env =
     (case (case audioDurations env of
              None \<Rightarrow> None
            | Some ad \<Rightarrow> truthy (Some (totalDuration ad))) of
        Some t \<Rightarrow> t
      | None \<Rightarrow>
         foldl (\<lambda>total chapterIndex. total + getChapterDuration env (int chapterIndex)) 0
           [0..<length (CHAPTERS env)])"

text \<open>
  The loop of \<open>getChapterBoundaries\<close>: \<open>currentTime\<close> and the array built so far are
  the loop state.
\<close>

function boundariesLoop :: "Env \<Rightarrow> nat \<Rightarrow> rat \<Rightarrow> rat list \<Rightarrow> rat list" where
  "boundariesLoop env chapterIndex currentTime boundaries =
     (if chapterIndex < length (CHAPTERS env)
      then boundariesLoop env (Suc chapterIndex)
             (currentTime + getChapterDuration env (int chapterIndex))
             (boundaries @ [currentTime + getChapterDuration env (int chapterIndex)])
      else boundaries)"
  by pat_completeness auto
termination
  by (relation "measure (\<lambda>(env, chapterIndex, _, _). length (CHAPTERS env) - chapterIndex)")
    auto

declare boundariesLoop.simps [simp del]

definition getChapterBoundaries :: "Env \<Rightarrow> rat list" where
  "getChapterBoundaries env = boundariesLoop env 0 0 [0]"

definition getChapterStartTime :: "Env \<Rightarrow> int \<Rightarrow> rat" where
  "getChapterStartTime env chapterIndex =
     (case truthy (js_index (getChapterBoundaries env) chapterIndex) of
        Some b \<Rightarrow> b
      | None \<Rightarrow> 0)"

section \<open>Frame domain (timing.ts)\<close>

definition FPS :: rat where
  "FPS = 30"

text \<open>
  \<open>toFrames\<close> as the frame ranges and the frame mapping use it: the product is taken
  exactly. \<open>toFrames_js\<close> and \<open>toSeconds\<close> are the two conversions in double
  arithmetic, where the product and the quotient are rounded to a double.
  \<open>toFrames_js\<close> gives the frame count of \<open>toFrames\<close> whenever the exact product is a
  double; when the product has to be rounded the two can differ by a frame.
\<close>

definition toFrames :: "rat \<Rightarrow> rat \<Rightarrow> int" where
  "toFrames seconds fps = Math_round (seconds * fps)"

definition toFrames_js :: "js_number \<Rightarrow> js_number \<Rightarrow> js_number" where
  "toFrames_js seconds fps = Math_round_js (js_mul seconds fps)"

definition toSeconds :: "js_number \<Rightarrow> js_number \<Rightarrow> js_number" where
  "toSeconds frames fps = js_div frames fps"

definition getTotalFrames :: "Env \<Rightarrow> rat \<Rightarrow> int" where
  "getTotalFrames env fps = toFrames (getTotalDuration env) fps"

record FrameRange =
  fromFrame :: int
  durationInFrames :: int

definition getChapterFrameRange :: "Env \<Rightarrow> int \<Rightarrow> rat \<Rightarrow> FrameRange" where
  "getChapterFrameRange env chapterIndex fps =
     \<lparr>fromFrame = toFrames (getChapterStartTime env chapterIndex) fps,
      durationInFrames = toFrames (getChapterDuration env chapterIndex) fps\<rparr>"

definition getAllChapterFrameRanges :: "Env \<Rightarrow> rat \<Rightarrow> FrameRange list" where
  "getAllChapterFrameRanges env fps =
     map (\<lambda>index. getChapterFrameRange env (int index) fps) [0..<length (CHAPTERS env)]"

text \<open>
  The track loop of \<open>getCurrentTrackAtFrame\<close>: \<open>Some\<close> is the \<open>return\<close> inside the
  loop, \<open>None\<close> is falling out of it.
\<close>

function trackFrameLoop ::
  "Env \<Rightarrow> Track list \<Rightarrow> int \<Rightarrow> rat \<Rightarrow> nat \<Rightarrow> int \<Rightarrow> (int \<times> int) option" where
  "trackFrameLoop env trks frameInChapter fps i accumulatedFrames =
     (if i < length trks
      then if frameInChapter
                < accumulatedFrames + toFrames (getTrackDuration env (audioFile (trks ! i))) fps
           then Some (int i, frameInChapter - accumulatedFrames)
           else trackFrameLoop env trks frameInChapter fps (Suc i)
                  (accumulatedFrames + toFrames (getTrackDuration env (audioFile (trks ! i))) fps)
      else None)"
  by pat_completeness auto
termination
  by (relation "measure (\<lambda>(_, trks, _, _, i, _). length trks - i)") auto

declare trackFrameLoop.simps [simp del]

text \<open>The result is the pair \<open>(trackIndex, frameInTrack)\<close>, or \<open>None\<close> for \<open>null\<close>.\<close>

definition getCurrentTrackAtFrame :: "Env \<Rightarrow> int \<Rightarrow> int \<Rightarrow> rat \<Rightarrow> (int \<times> int) option" where
  "getCurrentTrackAtFrame env chapterIndex frameInChapter fps =
     (if chapterIndex < 0 \<or> chapterIndex \<ge> int (length (CHAPTERS env)) then None
      else let trks = tracks (CHAPTERS env ! nat chapterIndex)
           in case trackFrameLoop env trks frameInChapter fps 0 0 of
                Some r \<Rightarrow> Some r
              | None \<Rightarrow>
                 if length trks > 0
                 then Some (int (length trks) - 1,
                        toFrames (getTrackDuration env (audioFile (trks ! (length trks - 1)))) fps)
                 else None)"

text \<open>
  The chapter loop of \<open>getGlobalTrackAtFrame\<close>. When the chapter that contains the frame
  gives no track, the loop goes on with the next chapter.
\<close>

function globalFrameLoop ::
  "Env \<Rightarrow> int \<Rightarrow> rat \<Rightarrow> nat \<Rightarrow> int \<Rightarrow> (int \<times> int \<times> int) option" where
  "globalFrameLoop env absoluteFrame fps chapterIndex accumulatedFrames =
     (if chapterIndex < length (CHAPTERS env)
      then if absoluteFrame
                < accumulatedFrames + toFrames (getChapterDuration env (int chapterIndex)) fps
           then case getCurrentTrackAtFrame env (int chapterIndex)
                       (absoluteFrame - accumulatedFrames) fps of
                  Some (trackIndex, frameInTrack) \<Rightarrow>
                    Some (int chapterIndex, trackIndex, frameInTrack)
                | None \<Rightarrow>
                    globalFrameLoop env absoluteFrame fps (Suc chapterIndex)
                      (accumulatedFrames + toFrames (getChapterDuration env (int chapterIndex)) fps)
           else globalFrameLoop env absoluteFrame fps (Suc chapterIndex)
                  (accumulatedFrames + toFrames (getChapterDuration env (int chapterIndex)) fps)
      else None)"
  by pat_completeness auto
termination
  by (relation "measure (\<lambda>(env, _, _, chapterIndex, _). length (CHAPTERS env) - chapterIndex)")
    auto

declare globalFrameLoop.simps [simp del]

text \<open>The result is the triple \<open>(chapterIndex, trackIndex, frameInTrack)\<close>.\<close>

definition getGlobalTrackAtFrame :: "Env \<Rightarrow> int \<Rightarrow> rat \<Rightarrow> (int \<times> int \<times> int) option" where
  "getGlobalTrackAtFrame env absoluteFrame fps = globalFrameLoop env absoluteFrame fps 0 0"

section \<open>Interactive player (App.tsx)\<close>

function audioTrackLoop :: "Env \<Rightarrow> Track list \<Rightarrow> rat \<Rightarrow> nat \<Rightarrow> rat \<Rightarrow> nat option" where
  "audioTrackLoop env trks progressInChapter trackIdx trackAccumulatedTime =
     (if trackIdx < length trks
      then if progressInChapter
                < trackAccumulatedTime + getTrackDuration env (audioFile (trks ! trackIdx))
           then Some trackIdx
           else audioTrackLoop env trks progressInChapter (Suc trackIdx)
                  (trackAccumulatedTime + getTrackDuration env (audioFile (trks ! trackIdx)))
      else None)"
  by pat_completeness auto
termination
  by (relation "measure (\<lambda>(_, trks, _, trackIdx, _). length trks - trackIdx)") auto

declare audioTrackLoop.simps [simp del]

function audioChapterLoop :: "Env \<Rightarrow> rat \<Rightarrow> nat \<Rightarrow> rat \<Rightarrow> (int \<times> int) option" where
  "audioChapterLoop env progress chapterIdx accumulatedTime =
     (if chapterIdx < length (CHAPTERS env)
      then if progress < accumulatedTime + getChapterDuration env (int chapterIdx)
           then case audioTrackLoop env (tracks (CHAPTERS env ! chapterIdx))
                       (progress - accumulatedTime) 0 0 of
                  Some trackIdx \<Rightarrow> Some (int chapterIdx, int trackIdx)
                | None \<Rightarrow>
                    Some (int chapterIdx, int (length (tracks (CHAPTERS env ! chapterIdx))) - 1)
           else audioChapterLoop env progress (Suc chapterIdx)
                  (accumulatedTime + getChapterDuration env (int chapterIdx))
      else None)"
  by pat_completeness auto
termination
  by (relation "measure (\<lambda>(env, _, chapterIdx, _). length (CHAPTERS env) - chapterIdx)") auto

declare audioChapterLoop.simps [simp del]

text \<open>The result is the pair \<open>(chapterIndex, trackIndex)\<close>.\<close>

definition getCurrentAudioTrack :: "Env \<Rightarrow> rat \<Rightarrow> (int \<times> int) option" where
  "getCurrentAudioTrack env progress = audioChapterLoop env progress 0 0"

definition getAudioFilePath :: "Env \<Rightarrow> int \<Rightarrow> int \<Rightarrow> js_error + string" where
  "getAudioFilePath env chapterIndex trackIndex =
     (case js_index (CHAPTERS env) chapterIndex of
        None \<Rightarrow> Inl TypeError
      | Some chapter \<Rightarrow>
         (case js_index (tracks chapter) trackIndex of
            None \<Rightarrow> Inl TypeError
          | Some track \<Rightarrow> Inr (audioFile track)))"

text \<open>
  The state that \<open>handleSeek\<close> reads and writes: the shared audio element, the refs and
  the React state variables. \<open>Date.now()\<close> is an argument of the model. Of the audio
  element the model keeps the source, the position and the pause flag: \<open>pause()\<close> sets
  the flag, \<open>play()\<close> clears it (a rejected \<open>play()\<close> is only logged by the code).
\<close>

record HTMLAudioElement =
  src :: string
  currentTime :: rat
  paused :: bool

record PlayerState =
  audioRef :: "HTMLAudioElement option"
  isAudioStarted :: bool
  currentAudioIndexRef :: "(int \<times> int) option"
  currentChapterIndex :: int
  currentTrackIndex :: int
  currentProgress :: rat
  chapterStartTimeRef :: int

definition handleSeek :: "Env \<Rightarrow> int \<Rightarrow> rat \<Rightarrow> PlayerState \<Rightarrow> js_error + PlayerState" where
  "handleSeek env now targetProgress st =
     (case audioRef st of
        None \<Rightarrow> Inr st
      | Some audio \<Rightarrow>
         if \<not> isAudioStarted st then Inr st
         else
           let clampedProgress = max 0 (min targetProgress (getTotalDuration env))
           in case getCurrentAudioTrack env clampedProgress of
                None \<Rightarrow> Inr st
              | Some (chapterIndex, trackIndex) \<Rightarrow>
                 (case js_index (CHAPTERS env) chapterIndex of
                    None \<Rightarrow> Inl TypeError
                  | Some chapter \<Rightarrow>
                     (case js_index (tracks chapter) trackIndex of
                        None \<Rightarrow> Inl TypeError
                      | Some track \<Rightarrow>
                         let chapterStartTime = getChapterStartTime env chapterIndex;
                             progressInChapter = clampedProgress - chapterStartTime;
                             trackAccumulatedTime =
                               foldl (\<lambda>acc i. acc + getTrackDuration env
                                                      (audioFile (tracks chapter ! i)))
                                 0 [0..<nat trackIndex];
                             progressInTrack = progressInChapter - trackAccumulatedTime;
                             currentTrackDuration = getTrackDuration env (audioFile track);
                             targetTrackTime =
                               max 0 (min progressInTrack currentTrackDuration);
                             needsSwitch =
                               (case currentAudioIndexRef st of
                                  None \<Rightarrow> True
                                | Some (c, t) \<Rightarrow> c \<noteq> chapterIndex \<or> t \<noteq> trackIndex);
                             switched =
                               (if needsSwitch
                                then case getAudioFilePath env chapterIndex trackIndex of
                                       Inl e \<Rightarrow> Inl e
                                     | Inr path \<Rightarrow>
                                        Inr (st\<lparr>audioRef :=
                                                  Some (audio\<lparr>paused := True,
                                                              src := path,
                                                              currentTime := targetTrackTime,
                                                              paused := False\<rparr>),
                                                currentAudioIndexRef :=
                                                  Some (chapterIndex, trackIndex),
                                                currentChapterIndex := chapterIndex,
                                                currentTrackIndex := trackIndex\<rparr>)
                                else Inr (st\<lparr>audioRef :=
                                               Some (audio\<lparr>currentTime := targetTrackTime\<rparr>)\<rparr>))
                         in case switched of
                              Inl e \<Rightarrow> Inl e
                            | Inr st' \<Rightarrow>
                               Inr (st'\<lparr>currentProgress := clampedProgress,
                                       chapterStartTimeRef := now\<rparr>))))"

section \<open>The chapter sequence of the repository\<close>

definition CHAPTERS_src :: "Chapter list" where
  "CHAPTERS_src =
     [\<lparr>chapterId = 1, video = ''01.mp4'',
       tracks = [\<lparr>audioFile = ''a_01_01.mp3''\<rparr>, \<lparr>audioFile = ''a_01_02.mp3''\<rparr>,
                 \<lparr>audioFile = ''a_01_03.mp3''\<rparr>]\<rparr>,
      \<lparr>chapterId = 2, video = ''02.mp4'',
       tracks = [\<lparr>audioFile = ''a_02_01.mp3''\<rparr>, \<lparr>audioFile = ''a_02_02.mp3''\<rparr>,
                 \<lparr>audioFile = ''a_02_03.mp3''\<rparr>]\<rparr>,
      \<lparr>chapterId = 3, video = ''03.mp4'',
       tracks = [\<lparr>audioFile = ''a_03_01.mp3''\<rparr>, \<lparr>audioFile = ''a_03_02.mp3''\<rparr>]\<rparr>,
      \<lparr>chapterId = 4, video = ''04.mp4'',
       tracks = [\<lparr>audioFile = ''a_04_01.mp3''\<rparr>, \<lparr>audioFile = ''a_04_02.mp3''\<rparr>]\<rparr>]"

text \<open>
  The repository's chapters with a given audio artifact, and the artifact that carries
  no entry at all.
\<close>

definition envOf :: "AudioDurationsData \<Rightarrow> Env" where
  "envOf ad = \<lparr>CHAPTERS = CHAPTERS_src, audioDurations = Some ad, videoDurations = None\<rparr>"

definition emptyAudioDurations :: AudioDurationsData where
  "emptyAudioDurations =
     \<lparr>trackDurations = Some Map.empty, chapterDurations = [], totalDuration = 0,
      calculatedAt = []\<rparr>"

section \<open>Notions used in the statements\<close>

text \<open>
  The other spelling of a track reference that \<open>getTrackDuration\<close> tries after the
  reference itself: without the \<open>/assets/\<close> prefix when the reference has it, with it
  otherwise.
\<close>

definition alternateRef :: "string \<Rightarrow> string" where
  "alternateRef file =
     (if startsWith file ''/assets/'' then replace_first ''/assets/'' [] file
      else ''/assets/'' @ file)"

text \<open>Artifacts and a player state at which the functions are evaluated below.\<close>

definition zeroEntryAudio :: AudioDurationsData where
  "zeroEntryAudio =
     \<lparr>trackDurations = Some [''a_01_01.mp3'' \<mapsto> 0], chapterDurations = [0],
      totalDuration = 0, calculatedAt = []\<rparr>"

definition zeroEntryVideo :: VideoDurationsData where
  "zeroEntryVideo =
     \<lparr>videoDurationsTable = Some [''01.mp4'' \<mapsto> 0], videoCalculatedAt = []\<rparr>"

text \<open>A video artifact without its table, as the JSON file \<open>{}\<close> gives it.\<close>

definition videoArtifactWithoutTable :: Env where
  "videoArtifactWithoutTable =
     \<lparr>CHAPTERS = CHAPTERS_src, audioDurations = None,
      videoDurations = Some \<lparr>videoDurationsTable = None, videoCalculatedAt = []\<rparr>\<rparr>"

definition emptyVideoTable :: Env where
  "emptyVideoTable =
     \<lparr>CHAPTERS = CHAPTERS_src, audioDurations = None,
      videoDurations = Some \<lparr>videoDurationsTable = Some Map.empty, videoCalculatedAt = []\<rparr>\<rparr>"

definition zeroEntryEnv :: Env where
  "zeroEntryEnv =
     \<lparr>CHAPTERS = CHAPTERS_src, audioDurations = Some zeroEntryAudio,
      videoDurations = Some zeroEntryVideo\<rparr>"

definition bothKeysAudio :: AudioDurationsData where
  "bothKeysAudio =
     \<lparr>trackDurations = Some [''a_01_01.mp3'' \<mapsto> 0, ''/assets/a_01_01.mp3'' \<mapsto> 200],
      chapterDurations = [], totalDuration = 0, calculatedAt = []\<rparr>"

text \<open>
  An artifact as \<open>calculateAudioDurations.js\<close> writes it, for audio files whose first
  track in chapters 1 and 2 lasts 180.25 seconds and every other track 180 seconds.
\<close>

definition quarterSecondAudio :: AudioDurationsData where
  "quarterSecondAudio =
     \<lparr>trackDurations = Some
        [''/assets/a_01_01.mp3'' \<mapsto> 721 / 4, ''/assets/a_01_02.mp3'' \<mapsto> 180,
         ''/assets/a_01_03.mp3'' \<mapsto> 180, ''/assets/a_02_01.mp3'' \<mapsto> 721 / 4,
         ''/assets/a_02_02.mp3'' \<mapsto> 180, ''/assets/a_02_03.mp3'' \<mapsto> 180,
         ''/assets/a_03_01.mp3'' \<mapsto> 180, ''/assets/a_03_02.mp3'' \<mapsto> 180,
         ''/assets/a_04_01.mp3'' \<mapsto> 180, ''/assets/a_04_02.mp3'' \<mapsto> 180],
      chapterDurations = [2161 / 4, 2161 / 4, 360, 360],
      totalDuration = 3601 / 2, calculatedAt = ''2025-01-01T00:00:00.000Z''\<rparr>"

definition negativeTrackAudio :: AudioDurationsData where
  "negativeTrackAudio =
     \<lparr>trackDurations = Some [''a_01_03.mp3'' \<mapsto> - 1], chapterDurations = [400],
      totalDuration = 0, calculatedAt = []\<rparr>"

definition playingFirstTrack :: PlayerState where
  "playingFirstTrack =
     \<lparr>audioRef = Some \<lparr>src = ''a_01_01.mp3'', currentTime = 0, paused = False\<rparr>,
      isAudioStarted = True, currentAudioIndexRef = Some (0, 0),
      currentChapterIndex = 0, currentTrackIndex = 0, currentProgress = 0,
      chapterStartTimeRef = 0\<rparr>"

section \<open>Properties\<close>

subsection \<open>Chapter boundaries are prefix sums\<close>







lemma length_CHAPTERS_envOf: "length (CHAPTERS (envOf ad)) = 4"
  by (simp add: envOf_def CHAPTERS_src_def)

text \<open>With no usable table entry every track lasts 180 seconds.\<close>

lemma getChapterDuration_fallback_src:
  "getChapterDuration (envOf (emptyAudioDurations\<lparr>totalDuration := t\<rparr>)) 0 = 540"
  "getChapterDuration (envOf (emptyAudioDurations\<lparr>totalDuration := t\<rparr>)) 1 = 540"
  "getChapterDuration (envOf (emptyAudioDurations\<lparr>totalDuration := t\<rparr>)) 2 = 360"
  "getChapterDuration (envOf (emptyAudioDurations\<lparr>totalDuration := t\<rparr>)) 3 = 360"
  by (simp_all add: getChapterDuration_def envOf_def emptyAudioDurations_def CHAPTERS_src_def
      js_index_def getTrackDuration_def truthy_def FALLBACK_TRACK_DURATION_SECONDS_def
      startsWith_def)









subsection \<open>Duration resolver\<close>

lemma getTrackDuration_lookup:
  assumes "audioDurations env = Some ad" and "trackDurations ad = Some td"
  shows "getTrackDuration env file =
           (case truthy (td file) of
              Some d \<Rightarrow> d
            | None \<Rightarrow> (case truthy (td (alternateRef file)) of Some d \<Rightarrow> d | None \<Rightarrow> 180))"
  using assms
  by (simp add: getTrackDuration_def alternateRef_def FALLBACK_TRACK_DURATION_SECONDS_def
      split: option.splits)

lemma truthy_zero: "truthy (Some 0) = None" "truthy None = None"
  by (simp_all add: truthy_def)

lemma replace_first_prefix:
  "startsWith s p \<Longrightarrow> replace_first p [] s = drop (length p) s"
  by (cases s) (auto simp: startsWith_def)

lemma startsWith_length: "startsWith s p \<Longrightarrow> length p \<le> length s"
  unfolding startsWith_def by (metis length_take min.cobounded1)

lemma alternateRef_neq: "alternateRef file \<noteq> file"
proof
  assume eq: "alternateRef file = file"
  show False
  proof (cases "startsWith file ''/assets/''")
    case True
    then have "8 \<le> length file"
      using startsWith_length [of "file" "''/assets/''"] by simp
    moreover have "length (alternateRef file) = length file - 8"
      using True by (simp add: alternateRef_def replace_first_prefix)
    ultimately show False using eq by simp
  next
    case False
    then have "length (alternateRef file) = length file + 8"
      by (simp add: alternateRef_def)
    then show False using eq by simp
  qed
qed

lemma getTrackDuration_empty: "getTrackDuration (envOf emptyAudioDurations) f = 180"
  by (simp add: getTrackDuration_def envOf_def emptyAudioDurations_def truthy_def
      FALLBACK_TRACK_DURATION_SECONDS_def)

lemma js_truthy_get:
  "js_truthy (js_get table key) =
     (case table key of
        Some x \<Rightarrow> if x = 0 then None else Some (NumberValue x)
      | None \<Rightarrow> if key \<in> set Object_prototype_members then Some (InheritedMember key) else None)"
  by (simp add: js_truthy_def js_get_def split: option.splits)

lemma getTrackDuration_js_lookup:
  assumes "audioDurations env = Some ad" and "trackDurations ad = Some td"
  shows "getTrackDuration_js env file =
           (case js_truthy (js_get td file) of
              Some v \<Rightarrow> v
            | None \<Rightarrow>
               (case js_truthy (js_get td (alternateRef file)) of
                  Some v \<Rightarrow> v
                | None \<Rightarrow> NumberValue 180))"
  using assms
  by (simp add: getTrackDuration_js_def alternateRef_def FALLBACK_TRACK_DURATION_SECONDS_def
      split: option.splits)

text \<open>
  The resolver with the full property read returns an inherited member, or else the
  number that the resolver on own entries returns.
\<close>

lemma getTrackDuration_js_number:
  "(\<exists>m. getTrackDuration_js env file = InheritedMember m)
   \<or> getTrackDuration_js env file = NumberValue (getTrackDuration env file)"
proof (cases "audioDurations env")
  case None
  then show ?thesis by (simp add: getTrackDuration_js_def getTrackDuration_def)
next
  case (Some ad)
  show ?thesis
  proof (cases "trackDurations ad")
    case None
    with Some show ?thesis by (simp add: getTrackDuration_js_def getTrackDuration_def)
  next
    case (Some td)
    with \<open>audioDurations env = Some ad\<close> show ?thesis
      by (simp add: getTrackDuration_js_lookup [of env ad td]
          getTrackDuration_lookup [of env ad td] js_truthy_get truthy_def
          split: option.splits)
  qed
qed

lemma getTrackDuration_js_plain:
  assumes "file \<notin> set Object_prototype_members"
      and "alternateRef file \<notin> set Object_prototype_members"
  shows "getTrackDuration_js env file = NumberValue (getTrackDuration env file)"
proof (cases "audioDurations env")
  case None
  then show ?thesis by (simp add: getTrackDuration_js_def getTrackDuration_def)
next
  case (Some ad)
  show ?thesis
  proof (cases "trackDurations ad")
    case None
    with Some show ?thesis by (simp add: getTrackDuration_js_def getTrackDuration_def)
  next
    case (Some td)
    with \<open>audioDurations env = Some ad\<close> assms show ?thesis
      by (simp add: getTrackDuration_js_lookup [of env ad td]
          getTrackDuration_lookup [of env ad td] js_truthy_get truthy_def
          split: option.splits)
  qed
qed

text \<open>
  On the track references of the repository's chapters the two resolvers agree, whatever
  the table holds: none of them spells an inherited member.
\<close>

lemma getTrackDuration_js_src:
  "list_all
     (\<lambda>chapter.
        list_all
          (\<lambda>track. getTrackDuration_js env (audioFile track)
                     = NumberValue (getTrackDuration env (audioFile track)))
          (tracks chapter))
     CHAPTERS_src"
  by (simp add: CHAPTERS_src_def getTrackDuration_js_plain alternateRef_def startsWith_def
      Object_prototype_members_def)

text \<open>
  C7 fails on the code. The lookups read \<open>table[key]\<close> without asking whether the key
  is the table's own: with an empty table the reference \<open>constructor\<close> finds the member
  that every object inherits, which is truthy, so \<open>getTrackDuration\<close> and
  \<open>getVideoDuration\<close> return that function instead of 180 and 30. And
  \<open>getVideoDuration\<close> tests the artifact but not its table: with a video artifact that
  has no table it throws, where \<open>getTrackDuration\<close> tests \<open>trackDurations\<close> first and
  falls back.
\<close>

theorem fallback_missed_on_inherited_member:
  "getTrackDuration_js (envOf emptyAudioDurations) ''constructor''
     = InheritedMember ''constructor''
   \<and> getVideoDuration emptyVideoTable ''constructor'' = Inr (InheritedMember ''constructor'')
   \<and> getVideoDuration videoArtifactWithoutTable ''01.mp4'' = Inl TypeError"
  by (simp add: getTrackDuration_js_def getVideoDuration_def envOf_def emptyAudioDurations_def
      emptyVideoTable_def videoArtifactWithoutTable_def js_truthy_def js_get_def
      Object_prototype_members_def)

text \<open>
  For a reference that does not spell an inherited member, in either spelling, the
  fallbacks are returned on an absent or empty table.
\<close>

lemma fallback_for_plain_reference:
  assumes "audioDurations env = None
           \<or> (\<exists>ad. audioDurations env = Some ad
                 \<and> (trackDurations ad = None \<or> trackDurations ad = Some Map.empty))"
      and "file \<notin> set Object_prototype_members"
      and "alternateRef file \<notin> set Object_prototype_members"
  shows "getTrackDuration_js env file = NumberValue 180"
proof -
  have "getTrackDuration env file = 180"
    using assms(1)
    by (auto simp: getTrackDuration_def truthy_def FALLBACK_TRACK_DURATION_SECONDS_def)
  with getTrackDuration_js_plain [OF assms(2,3)] show ?thesis by simp
qed

lemma video_fallback_for_plain_reference:
  assumes "videoDurations env = None
           \<or> (\<exists>vd. videoDurations env = Some vd \<and> videoDurationsTable vd = Some Map.empty)"
      and "videoFile \<notin> set Object_prototype_members"
  shows "getVideoDuration env videoFile = Inr (NumberValue 30)"
  using assms
  by (auto simp: getVideoDuration_def js_truthy_get FALLBACK_VIDEO_DURATION_SECONDS_def)

text \<open>
  C10, as the code has it. A track entry of exactly 0 is treated as an absent one: the
  lookup goes on to the other spelling of the reference (with or without the
  \<open>/assets/\<close> prefix) and returns that entry when it is nonzero, else 180; removing the
  zero entry from the table changes nothing. A video entry of exactly 0 gives 30, as
  does the table with that entry removed. This is for references that do not spell a
  member inherited from \<open>Object.prototype\<close>. \<open>getChapterDuration\<close> returns a
  precomputed chapter duration of 0 as it is.
\<close>

theorem zero_entry_is_absent:
  "(audioDurations env = Some ad \<and> trackDurations ad = Some td \<and> td file = Some 0
      \<and> alternateRef file \<notin> set Object_prototype_members \<longrightarrow>
      getTrackDuration_js env file
        = NumberValue (case truthy (td (alternateRef file)) of Some d \<Rightarrow> d | None \<Rightarrow> 180)
      \<and> (file \<notin> set Object_prototype_members \<longrightarrow>
           getTrackDuration_js env file
             = getTrackDuration_js
                 (env\<lparr>audioDurations :=
                        Some (ad\<lparr>trackDurations := Some (td(file := None))\<rparr>)\<rparr>) file))
   \<and> (videoDurations env = Some vd \<and> videoDurationsTable vd = Some table
        \<and> table videoFile = Some 0 \<longrightarrow>
         getVideoDuration env videoFile = Inr (NumberValue 30)
         \<and> (videoFile \<notin> set Object_prototype_members \<longrightarrow>
              getVideoDuration
                (env\<lparr>videoDurations :=
                       Some (vd\<lparr>videoDurationsTable := Some (table(videoFile := None))\<rparr>)\<rparr>)
                videoFile = Inr (NumberValue 30)))
   \<and> (0 \<le> c \<and> c < int (length (CHAPTERS env)) \<and> audioDurations env = Some ad
           \<and> js_index (chapterDurations ad) c = Some 0 \<longrightarrow>
         getChapterDuration env c = 0)"
proof (intro conjI impI)
  assume h: "audioDurations env = Some ad \<and> trackDurations ad = Some td \<and> td file = Some 0
      \<and> alternateRef file \<notin> set Object_prototype_members"
  let ?env' = "env\<lparr>audioDurations := Some (ad\<lparr>trackDurations := Some (td(file := None))\<rparr>)\<rparr>"
  let ?r = "NumberValue (case truthy (td (alternateRef file)) of Some d \<Rightarrow> d | None \<Rightarrow> 180)"
  show two: "getTrackDuration_js env file = ?r"
    using h
    by (simp add: getTrackDuration_js_lookup [of env ad td] js_truthy_get truthy_def
        split: option.splits)
  assume plain: "file \<notin> set Object_prototype_members"
  have "getTrackDuration_js ?env' file = ?r"
    using h plain alternateRef_neq [of "file"]
    by (simp add: getTrackDuration_js_lookup [of ?env' _ "td(file := None)"] js_truthy_get
        truthy_def split: option.splits)
  with two show "getTrackDuration_js env file = getTrackDuration_js ?env' file" by simp
next
  assume "videoDurations env = Some vd \<and> videoDurationsTable vd = Some table
        \<and> table videoFile = Some 0"
  then show "getVideoDuration env videoFile = Inr (NumberValue 30)"
    by (simp add: getVideoDuration_def js_truthy_get FALLBACK_VIDEO_DURATION_SECONDS_def)
next
  assume "videoFile \<notin> set Object_prototype_members"
  then show "getVideoDuration
                (env\<lparr>videoDurations :=
                       Some (vd\<lparr>videoDurationsTable := Some (table(videoFile := None))\<rparr>)\<rparr>)
                videoFile = Inr (NumberValue 30)"
    by (simp add: getVideoDuration_def js_truthy_get FALLBACK_VIDEO_DURATION_SECONDS_def)
next
  assume "0 \<le> c \<and> c < int (length (CHAPTERS env)) \<and> audioDurations env = Some ad
           \<and> js_index (chapterDurations ad) c = Some 0"
  then show "getChapterDuration env c = 0"
    by (simp add: getChapterDuration_def)
qed

theorem zero_entry_is_absent_witness:
  "the (trackDurations zeroEntryAudio) ''a_01_01.mp3'' = Some 0
   \<and> alternateRef ''a_01_01.mp3'' = ''/assets/a_01_01.mp3''
   \<and> ''a_01_01.mp3'' \<notin> set Object_prototype_members
   \<and> ''/assets/a_01_01.mp3'' \<notin> set Object_prototype_members
   \<and> videoDurationsTable zeroEntryVideo = Some [''01.mp4'' \<mapsto> 0]
   \<and> ''01.mp4'' \<notin> set Object_prototype_members
   \<and> js_index (chapterDurations zeroEntryAudio) 0 = Some 0
   \<and> getTrackDuration_js zeroEntryEnv ''a_01_01.mp3'' = NumberValue 180
   \<and> getTrackDuration_js
           (zeroEntryEnv\<lparr>audioDurations :=
              Some (zeroEntryAudio\<lparr>trackDurations := Some Map.empty\<rparr>)\<rparr>)
           ''a_01_01.mp3'' = NumberValue 180
   \<and> getVideoDuration zeroEntryEnv ''01.mp4'' = Inr (NumberValue 30)
   \<and> getVideoDuration
           (zeroEntryEnv\<lparr>videoDurations :=
              Some (zeroEntryVideo\<lparr>videoDurationsTable := Some Map.empty\<rparr>)\<rparr>)
           ''01.mp4'' = Inr (NumberValue 30)
   \<and> getChapterDuration zeroEntryEnv 0 = 0"
  using zero_entry_is_absent
          [of zeroEntryEnv zeroEntryAudio "[''a_01_01.mp3'' \<mapsto> 0]" "''a_01_01.mp3''"
              zeroEntryVideo "[''01.mp4'' \<mapsto> 0]" "''01.mp4''" 0]
  by (auto simp: zeroEntryEnv_def zeroEntryAudio_def zeroEntryVideo_def CHAPTERS_src_def
      js_index_def alternateRef_def startsWith_def truthy_def Object_prototype_members_def)

text \<open>
  C10 as stated fails: a track entry of 0 does not always give 180. With the entry
  \<open>a_01_01.mp3\<close> at 0 and the entry \<open>/assets/a_01_01.mp3\<close> at 200, the lookup of
  \<open>a_01_01.mp3\<close> goes on to the second spelling and returns 200.
\<close>

theorem zero_entry_other_spelling:
  "the (trackDurations bothKeysAudio) ''a_01_01.mp3'' = Some 0
   \<and> getTrackDuration_js (envOf bothKeysAudio) ''a_01_01.mp3'' = NumberValue 200
   \<and> getTrackDuration_js (envOf bothKeysAudio) ''a_01_01.mp3'' \<noteq> NumberValue 180"
  by (simp add: envOf_def bothKeysAudio_def getTrackDuration_js_def js_truthy_def js_get_def
      startsWith_def Object_prototype_members_def)

subsection \<open>Chapter frame ranges\<close>

lemma toFrames_src: "toFrames 540 30 = 16200" "toFrames 360 30 = 10800" "toFrames 180 30 = 5400"
  by code_simp+

text \<open>
  C2 fails on the code. With chapter durations of 540.25, 540.25, 360 and 360 seconds at
  30 frames per second, chapter 1 starts at frame 16208 and lasts 16208 frames, so it ends
  at 32416, while chapter 2 starts at frame 32415: the start and the length are rounded
  independently, and the two chapters overlap by one frame. \<open>getGlobalTrackAtFrame\<close>
  adds up the rounded frame counts instead: for it frame 32415 is the last frame of
  chapter 1 and chapter 2 starts at frame 32416.
\<close>

theorem chapter_frame_ranges_overlap:
  "getAllChapterFrameRanges (envOf quarterSecondAudio) 30
     = [\<lparr>fromFrame = 0, durationInFrames = 16208\<rparr>,
        \<lparr>fromFrame = 16208, durationInFrames = 16208\<rparr>,
        \<lparr>fromFrame = 32415, durationInFrames = 10800\<rparr>,
        \<lparr>fromFrame = 43215, durationInFrames = 10800\<rparr>]
   \<and> getChapterFrameRange (envOf quarterSecondAudio) 1 30
     = \<lparr>fromFrame = 16208, durationInFrames = 16208\<rparr>
   \<and> getChapterFrameRange (envOf quarterSecondAudio) 2 30
     = \<lparr>fromFrame = 32415, durationInFrames = 10800\<rparr>
   \<and> fromFrame (getChapterFrameRange (envOf quarterSecondAudio) 2 30)
     \<noteq> fromFrame (getChapterFrameRange (envOf quarterSecondAudio) 1 30)
       + durationInFrames (getChapterFrameRange (envOf quarterSecondAudio) 1 30)
   \<and> getGlobalTrackAtFrame (envOf quarterSecondAudio) 32415 30 = Some (1, 2, 5399)
   \<and> getGlobalTrackAtFrame (envOf quarterSecondAudio) 32416 30 = Some (2, 0, 0)"
  by code_simp

subsection \<open>From a frame or a time to a track\<close>

lemma Math_round_nonneg: "0 \<le> x \<Longrightarrow> 0 \<le> Math_round x"
  unfolding Math_round_def by simp

lemma toFrames_nonneg: "0 \<le> d \<Longrightarrow> 0 \<le> fps \<Longrightarrow> 0 \<le> toFrames d fps"
  unfolding toFrames_def by (simp add: Math_round_nonneg)

lemma trackFrameLoop_Some:
  "trackFrameLoop env trks f fps i acc = Some (t, ft) \<Longrightarrow> acc \<le> f \<Longrightarrow>
     int i \<le> t \<and> t < int (length trks) \<and> 0 \<le> ft
     \<and> ft < toFrames (getTrackDuration env (audioFile (trks ! nat t))) fps"
proof (induction env trks f fps i acc rule: trackFrameLoop.induct)
  case (1 env trks f fps i acc)
  let ?fr = "toFrames (getTrackDuration env (audioFile (trks ! i))) fps"
  from "1.prems"(1) have inside: "i < length trks"
    by (subst (asm) trackFrameLoop.simps) (simp split: if_splits)
  show ?case
  proof (cases "f < acc + ?fr")
    case True
    with inside "1.prems" have "t = int i" "ft = f - acc"
      by (subst (asm) trackFrameLoop.simps, simp)+
    with True inside "1.prems"(2) show ?thesis by simp
  next
    case False
    with inside "1.prems"(1)
    have "trackFrameLoop env trks f fps (Suc i) (acc + ?fr) = Some (t, ft)"
      by (subst (asm) trackFrameLoop.simps) simp
    from "1.IH" [OF inside False this] False show ?thesis by simp
  qed
qed

lemma trackFrameLoop_None:
  "\<forall>j<length trks. 0 \<le> toFrames (getTrackDuration env (audioFile (trks ! j))) fps \<Longrightarrow>
   acc + (\<Sum>j = i..<length trks. toFrames (getTrackDuration env (audioFile (trks ! j))) fps) \<le> f \<Longrightarrow>
   trackFrameLoop env trks f fps i acc = None"
proof (induction env trks f fps i acc rule: trackFrameLoop.induct)
  case (1 env trks f fps i acc)
  let ?fr = "\<lambda>j. toFrames (getTrackDuration env (audioFile (trks ! j))) fps"
  show ?case
  proof (cases "i < length trks")
    case True
    have split: "(\<Sum>j = i..<length trks. ?fr j) = ?fr i + (\<Sum>j = Suc i..<length trks. ?fr j)"
      using True by (simp add: sum.atLeast_Suc_lessThan)
    have "0 \<le> (\<Sum>j = Suc i..<length trks. ?fr j)"
      using "1.prems"(1) by (intro sum_nonneg) simp
    with "1.prems"(2) split have notless: "\<not> f < acc + ?fr i" by linarith
    have "acc + ?fr i + (\<Sum>j = Suc i..<length trks. ?fr j) \<le> f"
      using "1.prems"(2) split by linarith
    from "1.IH" [OF True notless "1.prems"(1) this] True notless show ?thesis
      by (subst trackFrameLoop.simps) simp
  next
    case False
    then show ?thesis by (subst trackFrameLoop.simps) simp
  qed
qed

lemma getCurrentTrackAtFrame_Some:
  assumes "0 \<le> chapterIndex" "chapterIndex < int (length (CHAPTERS env))"
      and "tracks (CHAPTERS env ! nat chapterIndex) \<noteq> []"
  shows "\<exists>r. getCurrentTrackAtFrame env chapterIndex f fps = Some r"
  using assms by (simp add: getCurrentTrackAtFrame_def Let_def split: option.splits)

lemma getCurrentTrackAtFrame_range:
  assumes res: "getCurrentTrackAtFrame env chapterIndex f fps = Some (t, ft)"
      and f: "0 \<le> f"
      and nonneg: "\<forall>tr \<in> set (tracks (CHAPTERS env ! nat chapterIndex)).
                     0 \<le> toFrames (getTrackDuration env (audioFile tr)) fps"
  shows "0 \<le> chapterIndex \<and> chapterIndex < int (length (CHAPTERS env))
         \<and> 0 \<le> t \<and> t < int (length (tracks (CHAPTERS env ! nat chapterIndex)))
         \<and> 0 \<le> ft
         \<and> ft \<le> toFrames (getTrackDuration env
                    (audioFile (tracks (CHAPTERS env ! nat chapterIndex) ! nat t))) fps"
proof -
  let ?trks = "tracks (CHAPTERS env ! nat chapterIndex)"
  from res have inr: "0 \<le> chapterIndex" "chapterIndex < int (length (CHAPTERS env))"
    by (auto simp: getCurrentTrackAtFrame_def split: if_splits)
  show ?thesis
  proof (cases "trackFrameLoop env ?trks f fps 0 0")
    case (Some r)
    with res inr have "trackFrameLoop env ?trks f fps 0 0 = Some (t, ft)"
      by (simp add: getCurrentTrackAtFrame_def)
    from trackFrameLoop_Some [OF this] f inr show ?thesis by simp
  next
    case None
    with res inr have ne: "?trks \<noteq> []" and t: "t = int (length ?trks) - 1"
      and ft: "ft = toFrames (getTrackDuration env (audioFile (?trks ! (length ?trks - 1)))) fps"
      by (auto simp: getCurrentTrackAtFrame_def Let_def split: if_splits)
    from ne have "?trks ! (length ?trks - 1) \<in> set ?trks" by simp
    with nonneg ft have "0 \<le> ft" by blast
    moreover from ne t have "nat t = length ?trks - 1" "0 \<le> t" "t < int (length ?trks)"
      by (auto simp: Suc_leI)
    ultimately show ?thesis using inr ft by simp
  qed
qed

lemma globalFrameLoop_range:
  assumes "globalFrameLoop env af fps ci acc = Some (c, t, ft)"
      and "acc \<le> af"
      and "\<forall>ch \<in> set (CHAPTERS env). tracks ch \<noteq> []"
      and "\<forall>ch \<in> set (CHAPTERS env). \<forall>tr \<in> set (tracks ch).
             0 \<le> toFrames (getTrackDuration env (audioFile tr)) fps"
  shows "0 \<le> c \<and> c < int (length (CHAPTERS env))
         \<and> 0 \<le> t \<and> t < int (length (tracks (CHAPTERS env ! nat c)))
         \<and> 0 \<le> ft
         \<and> ft \<le> toFrames (getTrackDuration env
                    (audioFile (tracks (CHAPTERS env ! nat c) ! nat t))) fps"
  using assms
proof (induction env af fps ci acc rule: globalFrameLoop.induct)
  case (1 env af fps ci acc)
  let ?cf = "toFrames (getChapterDuration env (int ci)) fps"
  from "1.prems"(1) have inside: "ci < length (CHAPTERS env)"
    by (subst (asm) globalFrameLoop.simps) (simp split: if_splits)
  then have mem: "CHAPTERS env ! ci \<in> set (CHAPTERS env)" by simp
  show ?case
  proof (cases "af < acc + ?cf")
    case True
    from getCurrentTrackAtFrame_Some [of "int ci" env "af - acc" fps] inside mem "1.prems"(3)
    obtain t' ft' where cur: "getCurrentTrackAtFrame env (int ci) (af - acc) fps = Some (t', ft')"
      by fastforce
    with True inside "1.prems"(1) have eq: "c = int ci" "t = t'" "ft = ft'"
      by (subst (asm) globalFrameLoop.simps, simp)+
    have "\<forall>tr \<in> set (tracks (CHAPTERS env ! nat (int ci))).
            0 \<le> toFrames (getTrackDuration env (audioFile tr)) fps"
      using mem "1.prems"(4) by simp
    from getCurrentTrackAtFrame_range [OF cur _ this] "1.prems"(2) eq show ?thesis
      by simp
  next
    case False
    with inside "1.prems"(1)
    have "globalFrameLoop env af fps (Suc ci) (acc + ?cf) = Some (c, t, ft)"
      by (subst (asm) globalFrameLoop.simps) simp
    moreover from False have "acc + ?cf \<le> af" by simp
    ultimately show ?thesis
      using "1.IH"(2) [OF inside False] "1.prems"(3,4) by blast
  qed
qed

lemma globalFrameLoop_None:
  "\<forall>j<length (CHAPTERS env). 0 \<le> toFrames (getChapterDuration env (int j)) fps \<Longrightarrow>
   acc + (\<Sum>j = ci..<length (CHAPTERS env). toFrames (getChapterDuration env (int j)) fps) \<le> af \<Longrightarrow>
   globalFrameLoop env af fps ci acc = None"
proof (induction env af fps ci acc rule: globalFrameLoop.induct)
  case (1 env af fps ci acc)
  let ?cf = "\<lambda>j. toFrames (getChapterDuration env (int j)) fps"
  let ?N = "length (CHAPTERS env)"
  show ?case
  proof (cases "ci < ?N")
    case True
    have split: "(\<Sum>j = ci..<?N. ?cf j) = ?cf ci + (\<Sum>j = Suc ci..<?N. ?cf j)"
      using True by (simp add: sum.atLeast_Suc_lessThan)
    have "0 \<le> (\<Sum>j = Suc ci..<?N. ?cf j)"
      using "1.prems"(1) by (intro sum_nonneg) simp
    with "1.prems"(2) split have notless: "\<not> af < acc + ?cf ci" by linarith
    have "acc + ?cf ci + (\<Sum>j = Suc ci..<?N. ?cf j) \<le> af"
      using "1.prems"(2) split by linarith
    from "1.IH"(2) [OF True notless "1.prems"(1) this] True notless show ?thesis
      by (subst globalFrameLoop.simps) simp
  next
    case False
    then show ?thesis by (subst globalFrameLoop.simps) simp
  qed
qed

lemma audioTrackLoop_Some:
  "audioTrackLoop env trks p i acc = Some t \<Longrightarrow> i \<le> t \<and> t < length trks"
proof (induction env trks p i acc rule: audioTrackLoop.induct)
  case (1 env trks p i acc)
  let ?d = "getTrackDuration env (audioFile (trks ! i))"
  from "1.prems" have inside: "i < length trks"
    by (subst (asm) audioTrackLoop.simps) (simp split: if_splits)
  show ?case
  proof (cases "p < acc + ?d")
    case True
    with inside "1.prems" have "t = i"
      by (subst (asm) audioTrackLoop.simps) simp
    with inside show ?thesis by simp
  next
    case False
    with inside "1.prems" have "audioTrackLoop env trks p (Suc i) (acc + ?d) = Some t"
      by (subst (asm) audioTrackLoop.simps) simp
    from "1.IH" [OF inside False this] show ?thesis by simp
  qed
qed

lemma audioChapterLoop_Some:
  "audioChapterLoop env p ci acc = Some (c, t) \<Longrightarrow>
     int ci \<le> c \<and> c < int (length (CHAPTERS env))
     \<and> - 1 \<le> t \<and> t < int (length (tracks (CHAPTERS env ! nat c)))"
proof (induction env p ci acc rule: audioChapterLoop.induct)
  case (1 env p ci acc)
  let ?d = "getChapterDuration env (int ci)"
  let ?trks = "tracks (CHAPTERS env ! ci)"
  from "1.prems" have inside: "ci < length (CHAPTERS env)"
    by (subst (asm) audioChapterLoop.simps) (simp split: if_splits)
  show ?case
  proof (cases "p < acc + ?d")
    case True
    show ?thesis
    proof (cases "audioTrackLoop env ?trks (p - acc) 0 0")
      case None
      with True inside "1.prems" have "c = int ci" "t = int (length ?trks) - 1"
        by (subst (asm) audioChapterLoop.simps, simp)+
      with inside show ?thesis by simp
    next
      case (Some t')
      with True inside "1.prems" have "c = int ci" "t = int t'"
        by (subst (asm) audioChapterLoop.simps, simp)+
      with inside audioTrackLoop_Some [OF Some] show ?thesis by simp
    qed
  next
    case False
    with inside "1.prems" have "audioChapterLoop env p (Suc ci) (acc + ?d) = Some (c, t)"
      by (subst (asm) audioChapterLoop.simps) simp
    from "1.IH" [OF inside False this] show ?thesis by simp
  qed
qed

lemma audioChapterLoop_None:
  "\<forall>j<length (CHAPTERS env). 0 \<le> getChapterDuration env (int j) \<Longrightarrow>
   acc + (\<Sum>j = ci..<length (CHAPTERS env). getChapterDuration env (int j)) \<le> p \<Longrightarrow>
   audioChapterLoop env p ci acc = None"
proof (induction env p ci acc rule: audioChapterLoop.induct)
  case (1 env p ci acc)
  let ?d = "\<lambda>j. getChapterDuration env (int j)"
  let ?N = "length (CHAPTERS env)"
  show ?case
  proof (cases "ci < ?N")
    case True
    have split: "(\<Sum>j = ci..<?N. ?d j) = ?d ci + (\<Sum>j = Suc ci..<?N. ?d j)"
      using True by (simp add: sum.atLeast_Suc_lessThan)
    have "0 \<le> (\<Sum>j = Suc ci..<?N. ?d j)"
      using "1.prems"(1) by (intro sum_nonneg) simp
    with "1.prems"(2) split have notless: "\<not> p < acc + ?d ci" by linarith
    have "acc + ?d ci + (\<Sum>j = Suc ci..<?N. ?d j) \<le> p"
      using "1.prems"(2) split by linarith
    from "1.IH" [OF True notless "1.prems"(1) this] True notless show ?thesis
      by (subst audioChapterLoop.simps) simp
  next
    case False
    then show ?thesis by (subst audioChapterLoop.simps) simp
  qed
qed

lemma getCurrentTrackAtFrame_tail:
  assumes "0 \<le> chapterIndex" and "chapterIndex < int (length (CHAPTERS env))"
      and "tracks (CHAPTERS env ! nat chapterIndex) \<noteq> []"
      and "\<forall>tr \<in> set (tracks (CHAPTERS env ! nat chapterIndex)).
             0 \<le> toFrames (getTrackDuration env (audioFile tr)) fps"
      and "(\<Sum>tr\<leftarrow>tracks (CHAPTERS env ! nat chapterIndex).
               toFrames (getTrackDuration env (audioFile tr)) fps) \<le> frameInChapter"
  shows "getCurrentTrackAtFrame env chapterIndex frameInChapter fps
           = Some (int (length (tracks (CHAPTERS env ! nat chapterIndex))) - 1,
                   toFrames (getTrackDuration env
                     (audioFile (last (tracks (CHAPTERS env ! nat chapterIndex))))) fps)"
proof -
  let ?trks = "tracks (CHAPTERS env ! nat chapterIndex)"
  let ?fr = "\<lambda>tr. toFrames (getTrackDuration env (audioFile tr)) fps"
  have "(\<Sum>tr\<leftarrow>?trks. ?fr tr) = (\<Sum>j = 0..<length ?trks. ?fr (?trks ! j))"
    by (simp add: sum_list_sum_nth)
  with assms(5) have "0 + (\<Sum>j = 0..<length ?trks. ?fr (?trks ! j)) \<le> frameInChapter"
    by simp
  moreover have "\<forall>j<length ?trks. 0 \<le> ?fr (?trks ! j)"
    using assms(4) by simp
  ultimately have "trackFrameLoop env ?trks frameInChapter fps 0 0 = None"
    by (intro trackFrameLoop_None)
  then show ?thesis
    using assms(1-3) by (simp add: getCurrentTrackAtFrame_def Let_def last_conv_nth)
qed

lemma getGlobalTrackAtFrame_last_frame:
  "getGlobalTrackAtFrame (envOf emptyAudioDurations) 53999 30 = Some (3, 1, 5399)"
  by code_simp

lemma past_end_src:
  "getGlobalTrackAtFrame (envOf emptyAudioDurations) 54000 30 = None"
  "getCurrentAudioTrack (envOf emptyAudioDurations) 1800 = None"
  "getTotalFrames (envOf emptyAudioDurations) 30 = 54000"
  "getTotalDuration (envOf emptyAudioDurations) = 1800"
  by code_simp+

text \<open>
  C3, as the code has it. Let the absolute frame and the frame rate be nonnegative, let
  every chapter have at least one track, and let every track's resolved duration be
  nonnegative. Whenever \<open>getGlobalTrackAtFrame\<close> returns a triple, its chapter index is
  a chapter index, its track index is a track index of that chapter, and its frame offset
  lies between 0 and that track's frame count.
\<close>

theorem getGlobalTrackAtFrame_in_range:
  assumes "0 \<le> absoluteFrame" and "0 \<le> fps"
      and "\<forall>ch \<in> set (CHAPTERS env). tracks ch \<noteq> []"
      and "\<forall>ch \<in> set (CHAPTERS env). \<forall>tr \<in> set (tracks ch).
             0 \<le> getTrackDuration env (audioFile tr)"
      and "getGlobalTrackAtFrame env absoluteFrame fps
             = Some (chapterIndex, trackIndex, frameInTrack)"
  shows "0 \<le> chapterIndex \<and> chapterIndex < int (length (CHAPTERS env))
         \<and> 0 \<le> trackIndex
         \<and> trackIndex < int (length (tracks (CHAPTERS env ! nat chapterIndex)))
         \<and> 0 \<le> frameInTrack
         \<and> frameInTrack
             \<le> toFrames (getTrackDuration env
                   (audioFile (tracks (CHAPTERS env ! nat chapterIndex) ! nat trackIndex))) fps"
proof -
  have "\<forall>ch \<in> set (CHAPTERS env). \<forall>tr \<in> set (tracks ch).
          0 \<le> toFrames (getTrackDuration env (audioFile tr)) fps"
    using assms(2,4) by (simp add: toFrames_nonneg)
  with assms(1,3,5) show ?thesis
    unfolding getGlobalTrackAtFrame_def by (intro globalFrameLoop_range) simp_all
qed

theorem getGlobalTrackAtFrame_in_range_witness:
  "getGlobalTrackAtFrame (envOf emptyAudioDurations) 53999 30 = Some (3, 1, 5399)
   \<and> (3::int) < int (length (CHAPTERS (envOf emptyAudioDurations)))
   \<and> (1::int) < int (length (tracks (CHAPTERS (envOf emptyAudioDurations) ! nat 3)))
   \<and> (5399::int)
       \<le> toFrames (getTrackDuration (envOf emptyAudioDurations)
             (audioFile (tracks (CHAPTERS (envOf emptyAudioDurations) ! nat 3) ! nat 1))) 30"
proof -
  have "\<forall>ch \<in> set (CHAPTERS (envOf emptyAudioDurations)). tracks ch \<noteq> []"
    by (simp add: envOf_def CHAPTERS_src_def)
  moreover have "\<forall>ch \<in> set (CHAPTERS (envOf emptyAudioDurations)). \<forall>tr \<in> set (tracks ch).
      0 \<le> getTrackDuration (envOf emptyAudioDurations) (audioFile tr)"
    by (simp add: getTrackDuration_empty)
  ultimately show ?thesis
    using getGlobalTrackAtFrame_in_range [of 53999 30 "envOf emptyAudioDurations" 3 1 5399]
      getGlobalTrackAtFrame_last_frame
    by simp
qed

text \<open>
  C3 as stated fails for a table with a negative entry: the last track of chapter 0 has
  the entry -1 and the chapter a precomputed duration of 400 seconds; frame 11000 lies in
  the chapter past all its tracks, and the offset returned is -30.
\<close>

theorem getGlobalTrackAtFrame_negative_offset:
  "(0::int) \<le> 11000
   \<and> list_all (\<lambda>ch. tracks ch \<noteq> []) (CHAPTERS (envOf negativeTrackAudio))
   \<and> getGlobalTrackAtFrame (envOf negativeTrackAudio) 11000 30 = Some (0, 2, - 30)"
  by code_simp

text \<open>
  C1, as the code has it. Let the frame rate be nonnegative. With nonnegative chapter
  durations, \<open>getGlobalTrackAtFrame\<close> returns null at every frame at or past the sum of
  the chapters' frame counts, and \<open>getCurrentAudioTrack\<close> returns null at every time at or
  past the sum of the chapter durations. The clamp to the last track is made inside a
  chapter only: for a chapter with tracks of nonnegative duration, at every frame of the
  chapter at or past the sum of its tracks' frame counts \<open>getCurrentTrackAtFrame\<close> returns
  the chapter's last track with the offset equal to that track's frame count.
\<close>

theorem past_the_end_is_null:
  assumes "0 \<le> fps"
  shows "((\<forall>c<length (CHAPTERS env). 0 \<le> getChapterDuration env (int c))
          \<and> (\<Sum>c<length (CHAPTERS env). toFrames (getChapterDuration env (int c)) fps)
               \<le> absoluteFrame \<longrightarrow>
          getGlobalTrackAtFrame env absoluteFrame fps = None)
       \<and> ((\<forall>c<length (CHAPTERS env). 0 \<le> getChapterDuration env (int c))
          \<and> (\<Sum>c<length (CHAPTERS env). getChapterDuration env (int c)) \<le> progress \<longrightarrow>
          getCurrentAudioTrack env progress = None)
       \<and> (0 \<le> chapterIndex \<and> chapterIndex < int (length (CHAPTERS env))
          \<and> tracks (CHAPTERS env ! nat chapterIndex) \<noteq> []
          \<and> (\<forall>tr \<in> set (tracks (CHAPTERS env ! nat chapterIndex)).
                0 \<le> getTrackDuration env (audioFile tr))
          \<and> (\<Sum>tr\<leftarrow>tracks (CHAPTERS env ! nat chapterIndex).
                 toFrames (getTrackDuration env (audioFile tr)) fps) \<le> frameInChapter \<longrightarrow>
          getCurrentTrackAtFrame env chapterIndex frameInChapter fps
            = Some (int (length (tracks (CHAPTERS env ! nat chapterIndex))) - 1,
                    toFrames (getTrackDuration env
                      (audioFile (last (tracks (CHAPTERS env ! nat chapterIndex))))) fps))"
proof (intro conjI impI)
  assume h: "(\<forall>c<length (CHAPTERS env). 0 \<le> getChapterDuration env (int c))
          \<and> (\<Sum>c<length (CHAPTERS env). toFrames (getChapterDuration env (int c)) fps)
               \<le> absoluteFrame"
  then have "\<forall>j<length (CHAPTERS env). 0 \<le> toFrames (getChapterDuration env (int j)) fps"
    using assms by (simp add: toFrames_nonneg)
  with h show "getGlobalTrackAtFrame env absoluteFrame fps = None"
    unfolding getGlobalTrackAtFrame_def
    by (intro globalFrameLoop_None) (simp_all add: atLeast0LessThan)
next
  assume "(\<forall>c<length (CHAPTERS env). 0 \<le> getChapterDuration env (int c))
          \<and> (\<Sum>c<length (CHAPTERS env). getChapterDuration env (int c)) \<le> progress"
  then show "getCurrentAudioTrack env progress = None"
    unfolding getCurrentAudioTrack_def
    by (intro audioChapterLoop_None) (simp_all add: atLeast0LessThan)
next
  assume h: "0 \<le> chapterIndex \<and> chapterIndex < int (length (CHAPTERS env))
          \<and> tracks (CHAPTERS env ! nat chapterIndex) \<noteq> []
          \<and> (\<forall>tr \<in> set (tracks (CHAPTERS env ! nat chapterIndex)).
                0 \<le> getTrackDuration env (audioFile tr))
          \<and> (\<Sum>tr\<leftarrow>tracks (CHAPTERS env ! nat chapterIndex).
                 toFrames (getTrackDuration env (audioFile tr)) fps) \<le> frameInChapter"
  then have "\<forall>tr \<in> set (tracks (CHAPTERS env ! nat chapterIndex)).
               0 \<le> toFrames (getTrackDuration env (audioFile tr)) fps"
    using assms by (simp add: toFrames_nonneg)
  with h show "getCurrentTrackAtFrame env chapterIndex frameInChapter fps
            = Some (int (length (tracks (CHAPTERS env ! nat chapterIndex))) - 1,
                    toFrames (getTrackDuration env
                      (audioFile (last (tracks (CHAPTERS env ! nat chapterIndex))))) fps)"
    by (intro getCurrentTrackAtFrame_tail) simp_all
qed

theorem past_the_end_is_null_witness:
  "(0::rat) \<le> 30
   \<and> (\<Sum>c<length (CHAPTERS (envOf emptyAudioDurations)).
         toFrames (getChapterDuration (envOf emptyAudioDurations) (int c)) 30) \<le> 54000
   \<and> getGlobalTrackAtFrame (envOf emptyAudioDurations) 54000 30 = None
   \<and> (\<Sum>c<length (CHAPTERS (envOf emptyAudioDurations)).
         getChapterDuration (envOf emptyAudioDurations) (int c)) \<le> 1800
   \<and> getCurrentAudioTrack (envOf emptyAudioDurations) 1800 = None
   \<and> getCurrentTrackAtFrame (envOf emptyAudioDurations) 0 16200 30 = Some (2, 5400)"
proof -
  let ?env = "envOf emptyAudioDurations"
  have four: "{..<4::nat} = {0, 1, 2, 3}" by auto
  have durs: "getChapterDuration ?env 0 = 540" "getChapterDuration ?env 1 = 540"
    "getChapterDuration ?env 2 = 360" "getChapterDuration ?env 3 = 360"
    using getChapterDuration_fallback_src [of 0] by (simp_all add: emptyAudioDurations_def)
  have nonneg: "\<forall>c<length (CHAPTERS ?env). 0 \<le> getChapterDuration ?env (int c)"
  proof (intro allI impI)
    fix c :: nat
    assume "c < length (CHAPTERS ?env)"
    then have "c = 0 \<or> c = 1 \<or> c = 2 \<or> c = 3"
      unfolding length_CHAPTERS_envOf by arith
    then show "0 \<le> getChapterDuration ?env (int c)"
      using durs by (elim disjE) simp_all
  qed
  have frames: "(\<Sum>c<length (CHAPTERS ?env). toFrames (getChapterDuration ?env (int c)) 30) \<le> 54000"
    by (simp add: length_CHAPTERS_envOf four durs toFrames_src)
  have secs: "(\<Sum>c<length (CHAPTERS ?env). getChapterDuration ?env (int c)) \<le> 1800"
    by (simp add: length_CHAPTERS_envOf four durs)
  have tr: "tracks (CHAPTERS ?env ! 0) =
      [\<lparr>audioFile = ''a_01_01.mp3''\<rparr>, \<lparr>audioFile = ''a_01_02.mp3''\<rparr>, \<lparr>audioFile = ''a_01_03.mp3''\<rparr>]"
    by (simp add: envOf_def CHAPTERS_src_def)
  show ?thesis
    using past_the_end_is_null [of 30 ?env 54000 1800 0 16200] nonneg frames secs
    by (simp add: tr getTrackDuration_empty toFrames_src length_CHAPTERS_envOf)
qed

text \<open>
  C1 as stated fails: with the repository's chapters and no table entry the total is 1800
  seconds, 54000 frames at 30 frames per second, and at exactly that position both
  functions return null.
\<close>

theorem past_the_end_no_last_track:
  "getTotalFrames (envOf emptyAudioDurations) 30 = 54000
   \<and> getGlobalTrackAtFrame (envOf emptyAudioDurations) 54000 30 = None
   \<and> getTotalDuration (envOf emptyAudioDurations) = 1800
   \<and> getCurrentAudioTrack (envOf emptyAudioDurations) 1800 = None"
  by (simp add: past_end_src)

subsection \<open>Seeking inside the loaded track\<close>

lemma getCurrentAudioTrack_ten:
  "getCurrentAudioTrack (envOf emptyAudioDurations) 10 = Some (0, 0)"
  "max 0 (min 10 (getTotalDuration (envOf emptyAudioDurations))) = 10"
  by code_simp+

lemma handleSeek_ten:
  "handleSeek (envOf emptyAudioDurations) 1000 10 playingFirstTrack
     = Inr (playingFirstTrack
             \<lparr>audioRef := Some \<lparr>src = ''a_01_01.mp3'', currentTime = 10, paused = False\<rparr>,
              currentProgress := 10, chapterStartTimeRef := 1000\<rparr>)"
  by code_simp

text \<open>
  C9, as the code has it. When the audio element exists, playback has started and the
  clamped target resolves to the pair that is recorded as loaded (a pair that names a
  track), \<open>handleSeek\<close> changes three things and nothing else: the element's
  \<open>currentTime\<close>, the published progress (the clamped target) and the time stamp
  \<open>chapterStartTimeRef\<close>. The audio source, the pause flag, the loaded-track record and the
  current chapter and track indices are the same as before.
\<close>

theorem handleSeek_same_track:
  assumes audio: "audioRef st = Some audio"
      and started: "isAudioStarted st"
      and resolved: "getCurrentAudioTrack env (max 0 (min targetProgress (getTotalDuration env)))
                       = Some (chapterIndex, trackIndex)"
      and real: "0 \<le> trackIndex"
      and same: "currentAudioIndexRef st = Some (chapterIndex, trackIndex)"
  shows "\<exists>pos. 0 \<le> pos
           \<and> handleSeek env now targetProgress st
               = Inr (st\<lparr>audioRef := Some (audio\<lparr>currentTime := pos\<rparr>),
                         currentProgress := max 0 (min targetProgress (getTotalDuration env)),
                         chapterStartTimeRef := now\<rparr>)"
proof -
  let ?p = "max 0 (min targetProgress (getTotalDuration env))"
  from resolved have range: "0 \<le> chapterIndex" "chapterIndex < int (length (CHAPTERS env))"
      "trackIndex < int (length (tracks (CHAPTERS env ! nat chapterIndex)))"
    using audioChapterLoop_Some [of env ?p 0 0 chapterIndex trackIndex]
    unfolding getCurrentAudioTrack_def by simp_all
  then have ch: "js_index (CHAPTERS env) chapterIndex = Some (CHAPTERS env ! nat chapterIndex)"
    by (simp add: js_index_def)
  from range real have tr: "js_index (tracks (CHAPTERS env ! nat chapterIndex)) trackIndex
      = Some (tracks (CHAPTERS env ! nat chapterIndex) ! nat trackIndex)"
    by (simp add: js_index_def)
  let ?chapter = "CHAPTERS env ! nat chapterIndex"
  let ?pos = "max 0 (min (?p - getChapterStartTime env chapterIndex
                 - foldl (\<lambda>acc i. acc + getTrackDuration env (audioFile (tracks ?chapter ! i)))
                     0 [0..<nat trackIndex])
               (getTrackDuration env (audioFile (tracks ?chapter ! nat trackIndex))))"
  have "handleSeek env now targetProgress st
          = Inr (st\<lparr>audioRef := Some (audio\<lparr>currentTime := ?pos\<rparr>),
                    currentProgress := ?p, chapterStartTimeRef := now\<rparr>)"
    using audio started resolved same ch tr
    by (simp add: handleSeek_def Let_def)
  moreover have "0 \<le> ?pos" by simp
  ultimately show ?thesis by blast
qed

theorem handleSeek_same_track_witness:
  "currentAudioIndexRef playingFirstTrack
     = getCurrentAudioTrack (envOf emptyAudioDurations)
         (max 0 (min 10 (getTotalDuration (envOf emptyAudioDurations))))
   \<and> (\<exists>pos. 0 \<le> pos
        \<and> handleSeek (envOf emptyAudioDurations) 1000 10 playingFirstTrack
            = Inr (playingFirstTrack
                    \<lparr>audioRef := Some \<lparr>src = ''a_01_01.mp3'', currentTime = pos, paused = False\<rparr>,
                     currentProgress := 10, chapterStartTimeRef := 1000\<rparr>))"
  using handleSeek_same_track [of playingFirstTrack "\<lparr>src = ''a_01_01.mp3'', currentTime = 0, paused = False\<rparr>"
              "envOf emptyAudioDurations" 10 0 0 1000]
  by (simp add: getCurrentAudioTrack_ten) (simp add: playingFirstTrack_def)

text \<open>
  C9 as stated fails in one respect: besides the position and the progress, a seek inside
  the loaded track also overwrites \<open>chapterStartTimeRef\<close> (here from 0 to 1000).
\<close>

theorem handleSeek_same_track_restamps:
  "currentAudioIndexRef playingFirstTrack = Some (0, 0)
   \<and> getCurrentAudioTrack (envOf emptyAudioDurations)
         (max 0 (min 10 (getTotalDuration (envOf emptyAudioDurations)))) = Some (0, 0)
   \<and> handleSeek (envOf emptyAudioDurations) 1000 10 playingFirstTrack
       = Inr (playingFirstTrack
               \<lparr>audioRef := Some \<lparr>src = ''a_01_01.mp3'', currentTime = 10, paused = False\<rparr>,
                currentProgress := 10, chapterStartTimeRef := 1000\<rparr>)
   \<and> chapterStartTimeRef playingFirstTrack = 0"
  by (simp add: getCurrentAudioTrack_ten handleSeek_ten) (simp add: playingFirstTrack_def)

subsection \<open>Frames and seconds in double arithmetic\<close>

lemma exponent_up_spec:
  assumes "e \<le> 1024" and "2 powi e \<le> a"
  shows "e \<le> exponent_up a e \<and> exponent_up a e \<le> 1024 \<and> 2 powi (exponent_up a e) \<le> a
         \<and> (exponent_up a e < 1024 \<longrightarrow> a < 2 powi (exponent_up a e + 1))"
  using assms
proof (induction a e rule: exponent_up.induct)
  case (1 a e)
  show ?case
  proof (cases "e < 1024 \<and> 2 powi (e + 1) \<le> a")
    case True
    then have eq: "exponent_up a e = exponent_up a (e + 1)"
      by (subst exponent_up.simps) simp
    from True have "e + 1 \<le> 1024" "2 powi (e + 1) \<le> a" by simp_all
    from "1.IH" [OF True this] show ?thesis unfolding eq by auto
  next
    case False
    then have "exponent_up a e = e"
      by (subst exponent_up.simps) auto
    with False "1.prems" show ?thesis by auto
  qed
qed

lemma exponent_down_spec:
  assumes "- 1022 \<le> e" and "a < 2 powi (e + 1)"
  shows "- 1022 \<le> exponent_down a e \<and> exponent_down a e \<le> e
         \<and> a < 2 powi (exponent_down a e + 1)
         \<and> (- 1022 < exponent_down a e \<longrightarrow> 2 powi (exponent_down a e) \<le> a)"
  using assms
proof (induction a e rule: exponent_down.induct)
  case (1 a e)
  show ?case
  proof (cases "- 1022 < e \<and> a < 2 powi e")
    case True
    then have eq: "exponent_down a e = exponent_down a (e - 1)"
      by (subst exponent_down.simps) simp
    from True have "- 1022 \<le> e - 1" "a < 2 powi (e - 1 + 1)" by simp_all
    from "1.IH" [OF True this] show ?thesis unfolding eq by auto
  next
    case False
    then have "exponent_down a e = e"
      by (subst exponent_down.simps) auto
    with False "1.prems" show ?thesis by auto
  qed
qed

lemma exponent_of_spec:
  "- 1022 \<le> exponent_of a \<and> exponent_of a \<le> 1024
   \<and> (exponent_of a < 1024 \<longrightarrow> a < 2 powi (exponent_of a + 1))
   \<and> (- 1022 < exponent_of a \<longrightarrow> 2 powi (exponent_of a) \<le> a)"
proof (cases "1 \<le> a")
  case True
  then have "2 powi 0 \<le> a" by simp
  from exponent_up_spec [OF _ this] True show ?thesis
    by (simp add: exponent_of_def)
next
  case False
  then have "a < 2 powi (0 + 1)" by simp
  from exponent_down_spec [OF _ this] False show ?thesis
    by (simp add: exponent_of_def)
qed

lemma exponent_of_unique:
  assumes "- 1022 \<le> e" and "e \<le> 1023" and "2 powi e \<le> a" and "a < 2 powi (e + 1)"
  shows "exponent_of a = e"
proof (rule ccontr)
  assume neq: "exponent_of a \<noteq> e"
  let ?r = "exponent_of a"
  note spec = exponent_of_spec [of a]
  show False
  proof (cases "?r < e")
    case True
    then have "a < 2 powi (?r + 1)" using spec assms(2) by simp
    also have "\<dots> \<le> 2 powi e"
      using True by (intro power_int_increasing) simp_all
    finally show False using assms(3) by simp
  next
    case False
    with neq have gt: "e + 1 \<le> ?r" by simp
    then have "2 powi ?r \<le> a" using spec assms(1) by simp
    moreover have "2 powi (e + 1) \<le> (2::rat) powi ?r"
      using gt by (intro power_int_increasing) simp_all
    ultimately show False using assms(4) by simp
  qed
qed

lemma round_half_even_near: "\<bar>of_int (round_half_even y) - y\<bar> \<le> 1 / 2"
proof -
  have "of_int \<lfloor>y\<rfloor> \<le> y" "y < of_int \<lfloor>y\<rfloor> + 1" by linarith+
  then show ?thesis
    unfolding round_half_even_def by (simp add: abs_le_iff)
qed

lemma round_half_even_nonneg: "0 \<le> y \<Longrightarrow> 0 \<le> round_half_even y"
  unfolding round_half_even_def by (auto simp: add_nonneg_nonneg)


text \<open>Rounding a nonzero rational to binary64.\<close>

lemma round_to_double_error:
  assumes "\<bar>x\<bar> \<le> 2 powi 1023"
  shows "\<exists>y. (round_to_double x = Finite y \<or> (round_to_double x = NegZero \<and> y = 0))
             \<and> \<bar>y - x\<bar> \<le> 2 powi (exponent_of \<bar>x\<bar> - 53)
             \<and> (0 \<le> x \<longrightarrow> round_to_double x = Finite y \<and> 0 \<le> y)"
proof -
  let ?e = "exponent_of \<bar>x\<bar>"
  let ?ulp = "(2::rat) powi (?e - 52)"
  let ?y = "of_int (round_half_even (x / ?ulp)) * ?ulp"
  note spec = exponent_of_spec [of "\<bar>x\<bar>"]
  have ulp_pos: "0 < ?ulp" by simp
  have half: "?ulp / 2 = 2 powi (?e - 53)"
  proof -
    have "(2::rat) powi (?e - 53 + 1) = 2 powi (?e - 53) * 2"
      by (rule power_int_add_1) simp
    then show ?thesis by simp
  qed
  have "\<bar>of_int (round_half_even (x / ?ulp)) - x / ?ulp\<bar> * ?ulp \<le> (1 / 2) * ?ulp"
    using round_half_even_near [of "x / ?ulp"] ulp_pos by (intro mult_right_mono) simp_all
  moreover have "\<bar>of_int (round_half_even (x / ?ulp)) - x / ?ulp\<bar> * ?ulp = \<bar>?y - x\<bar>"
  proof -
    have "\<bar>of_int (round_half_even (x / ?ulp)) - x / ?ulp\<bar> * ?ulp
          = \<bar>(of_int (round_half_even (x / ?ulp)) - x / ?ulp) * ?ulp\<bar>"
      using ulp_pos by (simp add: abs_mult)
    also have "(of_int (round_half_even (x / ?ulp)) - x / ?ulp) * ?ulp = ?y - x"
      using ulp_pos by (simp add: algebra_simps)
    finally show ?thesis .
  qed
  ultimately have err: "\<bar>?y - x\<bar> \<le> 2 powi (?e - 53)"
    using half by simp
  have e_le: "?e \<le> 1023"
  proof (rule ccontr)
    assume "\<not> ?e \<le> 1023"
    then have "?e = 1024" using spec by simp
    then have "2 powi 1024 \<le> \<bar>x\<bar>" using spec by simp
    moreover have "(2::rat) powi 1023 < 2 powi 1024"
      by (intro power_int_strict_increasing) simp_all
    ultimately show False using assms by simp
  qed
  have "(2::rat) powi (?e - 53) \<le> 2 powi 970"
    using e_le by (intro power_int_increasing) simp_all
  with err have "\<bar>?y\<bar> \<le> 2 powi 1023 + 2 powi 970"
    using assms by linarith
  also have "\<dots> < (2::rat) powi 1024"
  proof -
    have "(2::rat) powi 970 < 2 powi 1023"
      by (intro power_int_strict_increasing) simp_all
    moreover have "(2::rat) powi (1023 + 1) = 2 powi 1023 * 2"
      by (rule power_int_add_1) simp
    ultimately show ?thesis by simp
  qed
  finally have no_overflow: "\<not> 2 powi 1024 \<le> \<bar>?y\<bar>" by simp
  have nonneg: "0 \<le> ?y" if "0 \<le> x"
    using that ulp_pos by (intro mult_nonneg_nonneg) (simp_all add: round_half_even_nonneg)
  show ?thesis
  proof (cases "?y = 0")
    case True
    with no_overflow err nonneg show ?thesis
      by (intro exI [of _ 0]) (auto simp: round_to_double_def Let_def signed_zero_def)
  next
    case False
    with no_overflow err nonneg show ?thesis
      by (intro exI [of _ ?y]) (auto simp: round_to_double_def Let_def)
  qed
qed

lemma ulp_half_bound:
  assumes "0 \<le> a"
  shows "2 powi (exponent_of a - 53) \<le> max (a / 2 ^ 53) (1 / 2 ^ 1075)"
proof (cases "- 1022 < exponent_of a")
  case True
  then have "2 powi (exponent_of a) \<le> a" using exponent_of_spec [of a] by simp
  moreover have "(2::rat) powi (exponent_of a - 53) = 2 powi (exponent_of a) / 2 powi 53"
    by (rule power_int_diff) simp
  ultimately have "2 powi (exponent_of a - 53) \<le> a / 2 ^ 53"
    by (simp add: divide_right_mono)
  then show ?thesis by simp
next
  case False
  then have "exponent_of a = - 1022" using exponent_of_spec [of a] by simp
  then have "(2::rat) powi (exponent_of a - 53) = 2 powi (- 1075)" by simp
  also have "\<dots> = 1 / 2 ^ 1075"
    by (simp add: power_int_minus_divide)
  finally show ?thesis by simp
qed

lemma is_double_less: "is_double (Finite x) \<Longrightarrow> \<bar>x\<bar> < 2 powi 1024"
  unfolding is_double_def round_to_double_def Let_def signed_infinity_def signed_zero_def
  by (auto split: if_splits)

lemma round_to_double_small:
  assumes "0 \<le> x" and "x \<le> 2 ^ 1023"
  shows "\<exists>y. round_to_double x = Finite y \<and> 0 \<le> y
             \<and> \<bar>y - x\<bar> \<le> max (x / 2 ^ 53) (1 / 2 ^ 1075)"
proof -
  have "(2::rat) powi 1023 = 2 ^ 1023" by (rule power_int_numeral)
  with assms have "\<bar>x\<bar> \<le> 2 powi 1023" by (simp only: abs_of_nonneg)
  from round_to_double_error [OF this] assms(1) ulp_half_bound [of "\<bar>x\<bar>"]
  show ?thesis by fastforce
qed

text \<open>Evaluating the rounding at a magnitude whose exponent is known.\<close>

lemma round_to_double_eval:
  assumes "- 1022 \<le> e" and "e \<le> 1023" and "2 powi e \<le> \<bar>x\<bar>" and "\<bar>x\<bar> < 2 powi (e + 1)"
      and "round_half_even (x / 2 powi (e - 52)) = m" and "m \<noteq> 0"
      and "\<bar>of_int m * 2 powi (e - 52)\<bar> < (2::rat) powi 1024"
  shows "round_to_double x = Finite (of_int m * 2 powi (e - 52))"
proof -
  have "exponent_of \<bar>x\<bar> = e"
    using assms(1-4) by (rule exponent_of_unique)
  then show ?thesis
    using assms(5-7) by (simp add: round_to_double_def Let_def)
qed

lemma double_quarter: "round_to_double (1 / 4) = Finite (1 / 4)"
proof -
  have "round_half_even ((1 / 4) / 2 powi (- 2 - 52)) = 2 ^ 52" by code_simp
  from round_to_double_eval [of "- 2" "1 / 4", OF _ _ _ _ this]
  show ?thesis by (simp add: power_int_minus_divide)
qed

lemma double_thirty: "round_to_double 30 = Finite 30"
proof -
  have "round_half_even (30 / 2 powi (4 - 52)) = 30 * 2 ^ 48" by code_simp
  from round_to_double_eval [of 4 30, OF _ _ _ _ this]
  show ?thesis by (simp add: power_int_minus_divide)
qed

text \<open>
  C8, as the code has it. For doubles \<open>s \<ge> 0\<close> and \<open>fps > 0\<close> whose exact product is at
  most \<open>2 ^ 50\<close> frames, and with \<open>s + 1 / fps\<close> at most \<open>2 ^ 1023\<close> so that the quotient
  cannot overflow, \<open>toFrames\<close> returns an integer within 5/8 of the exact product
  (the product is rounded to a double first, then to an integer), and the round trip
  through \<open>toSeconds\<close> is a finite number within \<open>1 / fps\<close> of \<open>s\<close>.
\<close>

theorem double_round_trip_within_one_frame:
  assumes ds: "is_double (Finite s)" and dfps: "is_double (Finite fps)"
      and s: "0 \<le> s" and fps_pos: "0 < fps" and small: "s * fps \<le> 2 ^ 50"
      and bounded: "s + 1 / fps \<le> 2 ^ 1023"
  shows "\<exists>n r. toFrames_js (Finite s) (Finite fps) = Finite (of_int n)
               \<and> \<bar>of_int n - s * fps\<bar> \<le> 5 / 8
               \<and> toSeconds (toFrames_js (Finite s) (Finite fps)) (Finite fps) = Finite r
               \<and> \<bar>r - s\<bar> \<le> 1 / fps"
proof -
  let ?x = "s * fps"
  have big: "(2::rat) ^ 50 \<le> 2 ^ 1023" by (intro power_increasing) simp_all
  have x_nonneg: "0 \<le> ?x" using s fps_pos by simp
  have fps_lt: "fps < 2 ^ 1024" using is_double_less [OF dfps] fps_pos by simp
  obtain p where p: "js_mul (Finite s) (Finite fps) = Finite p" "0 \<le> p" "\<bar>p - ?x\<bar> \<le> 1 / 8"
  proof (cases "s = 0")
    case True
    then have "js_mul (Finite s) (Finite fps) = Finite 0"
      using fps_pos by (simp add: js_mul_def signed_zero_def)
    with True that [of 0] show ?thesis by simp
  next
    case False
    then have mul: "js_mul (Finite s) (Finite fps) = round_to_double ?x"
      using fps_pos by (simp add: js_mul_def)
    from round_to_double_small [of ?x] x_nonneg small big
    obtain y where y: "round_to_double ?x = Finite y" "0 \<le> y"
        "\<bar>y - ?x\<bar> \<le> max (?x / 2 ^ 53) (1 / 2 ^ 1075)"
      by auto
    have "?x / 2 ^ 53 \<le> 2 ^ 50 / 2 ^ 53" using small by (intro divide_right_mono) simp_all
    then have a: "?x / 2 ^ 53 \<le> 1 / 8" by simp
    have "(1::rat) / 2 ^ 1075 \<le> 1 / 2 ^ 3"
      by (intro divide_left_mono power_increasing) simp_all
    then have b: "(1::rat) / 2 ^ 1075 \<le> 1 / 8" by simp
    have "max (?x / 2 ^ 53) (1 / 2 ^ 1075) \<le> 1 / 8"
      using a b by (rule max.boundedI)
    with y(3) have "\<bar>y - ?x\<bar> \<le> 1 / 8" by (rule order_trans)
    with y(1,2) mul that [of y] show ?thesis by simp
  qed
  define n where "n = \<lfloor>p + 1 / 2\<rfloor>"
  have n_near: "\<bar>of_int n - p\<bar> \<le> 1 / 2" unfolding n_def by linarith
  have n_nonneg: "0 \<le> n" unfolding n_def using p(2) by simp
  have frames: "toFrames_js (Finite s) (Finite fps) = Finite (of_int n)"
    using p(1,2) by (simp add: toFrames_js_def n_def signed_zero_def)
  have n_x: "\<bar>of_int n - ?x\<bar> \<le> 5 / 8" using n_near p(3) by linarith
  have n_le: "of_int n \<le> (2::rat) ^ 50 + 1" using n_x small by linarith
  let ?q = "of_int n / fps :: rat"
  have q_nonneg: "0 \<le> ?q" using n_nonneg fps_pos by simp
  have q_le: "?q \<le> 2 ^ 1023"
  proof -
    have "?q \<le> (?x + 5 / 8) / fps"
      using n_x fps_pos by (intro divide_right_mono) linarith+
    also have "\<dots> = s + (5 / 8) / fps" using fps_pos by (simp add: field_simps)
    also have "\<dots> \<le> s + 1 / fps"
    proof -
      have "(5 / 8) / fps \<le> 1 / fps" using fps_pos by (intro divide_right_mono) simp_all
      thus ?thesis by simp
    qed
    finally show ?thesis using bounded by (rule order_trans)
  qed
  obtain r where r: "toSeconds (Finite (of_int n)) (Finite fps) = Finite r"
      "\<bar>r - ?q\<bar> \<le> max (?q / 2 ^ 53) (1 / 2 ^ 1075)"
  proof (cases "n = 0")
    case True
    then have "toSeconds (Finite (of_int n)) (Finite fps) = Finite 0"
      using fps_pos by (simp add: toSeconds_def js_div_def signed_zero_def)
    with True that [of 0] show ?thesis by simp
  next
    case False
    then have div: "toSeconds (Finite (of_int n)) (Finite fps) = round_to_double ?q"
      using fps_pos by (simp add: toSeconds_def js_div_def)
    from round_to_double_small [of ?q] q_nonneg q_le
    obtain y where "round_to_double ?q = Finite y"
        "\<bar>y - ?q\<bar> \<le> max (?q / 2 ^ 53) (1 / 2 ^ 1075)"
      by auto
    with div that [of y] show ?thesis by simp
  qed
  have first: "?q / 2 ^ 53 \<le> (3 / 8) / fps"
  proof -
    have "of_int n / 2 ^ 53 \<le> ((2::rat) ^ 50 + 1) / 2 ^ 53"
      using n_le by (intro divide_right_mono) simp_all
    also have "\<dots> \<le> 3 / 8" by simp
    finally have "(of_int n / 2 ^ 53) / fps \<le> (3 / 8) / fps"
      using fps_pos by (intro divide_right_mono) simp_all
    then show ?thesis by (simp add: field_simps)
  qed
  have second: "(1::rat) / 2 ^ 1075 \<le> (3 / 8) / fps"
  proof -
    have "fps * (1 / 2 ^ 1075) \<le> 2 ^ 1024 * (1 / 2 ^ 1075)"
      using fps_lt by (intro mult_right_mono) simp_all
    also have "\<dots> = (1::rat) / 2 ^ 51"
    proof -
      have "(2::rat) ^ 1075 = 2 ^ 1024 * 2 ^ 51" by (simp flip: power_add)
      then show ?thesis by simp
    qed
    also have "\<dots> \<le> 3 / 8" by simp
    finally have "fps * (1 / 2 ^ 1075) \<le> 3 / 8" .
    then show ?thesis using fps_pos by (simp add: field_simps)
  qed
  have "max (?q / 2 ^ 53) (1 / 2 ^ 1075) \<le> (3 / 8) / fps"
    using first second by (rule max.boundedI)
  with r(2) have "\<bar>r - ?q\<bar> \<le> (3 / 8) / fps" by (rule order_trans)
  moreover have "\<bar>?q - s\<bar> \<le> (5 / 8) / fps"
  proof -
    have "?q - s = (of_int n - ?x) / fps" using fps_pos by (simp add: field_simps)
    then have "\<bar>?q - s\<bar> = \<bar>of_int n - ?x\<bar> / fps" using fps_pos by (simp add: abs_divide)
    also have "\<dots> \<le> (5 / 8) / fps" using n_x fps_pos by (intro divide_right_mono) simp_all
    finally show ?thesis .
  qed
  moreover have "(3 / 8) / fps + (5 / 8) / fps = 1 / fps" by (simp add: field_simps)
  ultimately have "\<bar>r - s\<bar> \<le> 1 / fps" by linarith
  with frames n_x r(1) show ?thesis by auto
qed

theorem double_round_trip_within_one_frame_witness:
  "is_double (Finite (1 / 4)) \<and> is_double (Finite 30) \<and> (0::rat) \<le> 1 / 4 \<and> (0::rat) < 30
   \<and> (1 / 4) * 30 \<le> (2::rat) ^ 50 \<and> 1 / 4 + 1 / 30 \<le> (2::rat) ^ 1023
   \<and> (\<exists>n r. toFrames_js (Finite (1 / 4)) (Finite 30) = Finite (of_int n)
          \<and> \<bar>of_int n - (1 / 4) * 30\<bar> \<le> (5::rat) / 8
          \<and> toSeconds (toFrames_js (Finite (1 / 4)) (Finite 30)) (Finite 30) = Finite r
          \<and> \<bar>r - 1 / 4\<bar> \<le> 1 / 30)"
proof -
  have d: "is_double (Finite (1 / 4))" "is_double (Finite 30)"
    using double_quarter double_thirty by (simp_all add: is_double_def)
  from double_round_trip_within_one_frame [OF d] d show ?thesis by simp
qed

lemma double_big: "round_to_double (10 ^ 15 + 1) = Finite (10 ^ 15 + 1)"
proof -
  have "round_half_even ((10 ^ 15 + 1) / 2 powi (49 - 52)) = 8 * (10 ^ 15 + 1)" by code_simp
  from round_to_double_eval [of 49 "10 ^ 15 + 1", OF _ _ _ _ this]
  show ?thesis by (simp add: power_int_minus_divide)
qed

lemma double_big_product:
  "round_to_double ((10 ^ 15 + 1) * 30) = Finite 30000000000000032"
proof -
  have "round_half_even (((10 ^ 15 + 1) * 30) / 2 powi (54 - 52)) = 7500000000000008"
    by code_simp
  from round_to_double_eval [of 54 "(10 ^ 15 + 1) * 30", OF _ _ _ _ this]
  show ?thesis by simp
qed

lemma double_big_quotient:
  "round_to_double (30000000000000032 / 30) = Finite (10 ^ 15 + 9 / 8)"
proof -
  have "round_half_even ((30000000000000032 / 30) / 2 powi (49 - 52)) = 8000000000000009"
    by code_simp
  from round_to_double_eval [of 49 "30000000000000032 / 30", OF _ _ _ _ this]
  show ?thesis by (simp add: power_int_minus_divide)
qed

text \<open>
  C8 as stated fails for large values. Both \<open>10 ^ 15 + 1\<close> and 30 are doubles; their
  product 30000000000000030 is not, and is rounded to 30000000000000032, an integer
  that \<open>Math.round\<close> keeps. Divided by 30 and rounded it gives \<open>10 ^ 15 + 1.125\<close>,
  which is 0.125 away from \<open>s\<close>: more than \<open>1 / 30\<close>.
\<close>

theorem double_round_trip_large_seconds:
  "is_double (Finite (10 ^ 15 + 1)) \<and> is_double (Finite 30)
   \<and> toFrames_js (Finite (10 ^ 15 + 1)) (Finite 30) = Finite 30000000000000032
   \<and> toSeconds (toFrames_js (Finite (10 ^ 15 + 1)) (Finite 30)) (Finite 30)
       = Finite (10 ^ 15 + 9 / 8)
   \<and> \<not> \<bar>(10 ^ 15 + 9 / 8) - (10 ^ 15 + 1)\<bar> \<le> (1::rat) / 30"
proof -
  have "js_mul (Finite (10 ^ 15 + 1)) (Finite 30) = Finite 30000000000000032"
    using double_big_product by (simp add: js_mul_def)
  moreover have "Math_round_js (Finite 30000000000000032) = Finite 30000000000000032"
    by code_simp
  ultimately have frames:
    "toFrames_js (Finite (10 ^ 15 + 1)) (Finite 30) = Finite 30000000000000032"
    by (simp only: toFrames_js_def)
  have "toSeconds (Finite 30000000000000032) (Finite 30) = Finite (10 ^ 15 + 9 / 8)"
    using double_big_quotient by (simp add: toSeconds_def js_div_def)
  with frames show ?thesis
    using double_big double_thirty by (simp add: is_double_def)
qed

text \<open>
  When the exact product is a double, \<open>toFrames_js\<close> gives the frame count of
  \<open>toFrames\<close>. When the product is rounded, the two can differ: the double nearest to
  0.15 is slightly below it, its exact product with 30 is below 4.5 and rounds to 4
  frames, while the product in double arithmetic is 4.5 and rounds to 5 frames.
\<close>

lemma toFrames_js_exact:
  assumes "0 \<le> s" and "0 \<le> fps" and "round_to_double (s * fps) = Finite (s * fps)"
  shows "toFrames_js (Finite s) (Finite fps) = Finite (of_int (toFrames s fps))"
proof (cases "s = 0 \<or> fps = 0")
  case True
  with assms(1,2) show ?thesis
    by (auto simp: toFrames_js_def js_mul_def signed_zero_def toFrames_def Math_round_def)
next
  case False
  then have "js_mul (Finite s) (Finite fps) = Finite (s * fps)"
    using assms(3) by (simp add: js_mul_def)
  moreover have "0 \<le> s * fps" using assms(1,2) by simp
  ultimately show ?thesis
    by (simp add: toFrames_js_def signed_zero_def toFrames_def Math_round_def)
qed

lemma double_nearest_0_15:
  "round_to_double (5404319552844595 / 2 ^ 55) = Finite (5404319552844595 / 2 ^ 55)"
proof -
  have "round_half_even ((5404319552844595 / 2 ^ 55) / 2 powi (- 3 - 52)) = 5404319552844595"
    by code_simp
  from round_to_double_eval [of "- 3" "5404319552844595 / 2 ^ 55", OF _ _ _ _ this]
  show ?thesis by (simp add: power_int_minus_divide)
qed

lemma double_product_0_15:
  "round_to_double ((5404319552844595 / 2 ^ 55) * 30) = Finite (9 / 2)"
proof -
  have "round_half_even (((5404319552844595 / 2 ^ 55) * 30) / 2 powi (2 - 52))
          = 5066549580791808"
    by code_simp
  from round_to_double_eval [of 2 "(5404319552844595 / 2 ^ 55) * 30", OF _ _ _ _ this]
  show ?thesis by (simp add: power_int_minus_divide)
qed

lemma toFrames_js_rounds_product:
  "is_double (Finite (5404319552844595 / 2 ^ 55))
   \<and> toFrames_js (Finite (5404319552844595 / 2 ^ 55)) (Finite 30) = Finite 5
   \<and> toFrames (5404319552844595 / 2 ^ 55) 30 = 4"
proof -
  have "js_mul (Finite (5404319552844595 / 2 ^ 55)) (Finite 30) = Finite (9 / 2)"
    using double_product_0_15 by (simp add: js_mul_def)
  moreover have "Math_round_js (Finite (9 / 2)) = Finite 5" by code_simp
  ultimately have "toFrames_js (Finite (5404319552844595 / 2 ^ 55)) (Finite 30) = Finite 5"
    by (simp only: toFrames_js_def)
  moreover have "toFrames (5404319552844595 / 2 ^ 55) 30 = 4" by code_simp
  ultimately show ?thesis using double_nearest_0_15 by (simp add: is_double_def)
qed

end
